theory Spec2Isabelle
  imports Main
begin

section \<open>Time and snowflakes\<close>

text \<open>
  A datetime is an integer number of microseconds since the Unix epoch, the resolution
  of Python's datetime; a timedelta is a number of microseconds. A snowflake is a Python
  integer. \<^verbatim>\<open>DISCORD_EPOCH\<close> is the library's constant, in milliseconds.

  \<^verbatim>\<open>discord.utils.snowflake_time(id)\<close> is the datetime of
  \<^verbatim>\<open>(id >> 22) + DISCORD_EPOCH\<close> milliseconds; the library's division by 1000 and
  its conversion to a datetime give that datetime for every 64-bit snowflake.

  \<^verbatim>\<open>discord.utils.time_snowflake(dt)\<close> is
  \<^verbatim>\<open>int(dt.timestamp() * 1000 - DISCORD_EPOCH) << 22\<close> (the default \<^verbatim>\<open>high=False\<close>):
  the milliseconds since the Discord epoch, cut towards zero by \<^verbatim>\<open>int\<close>, in the upper
  bits. The library computes the product and the difference in double precision, which
  can fall just below a whole millisecond; \<open>discord_millis\<close> computes them exactly. The
  statements below that speak of every datetime use \<open>time_snowflake\<close> as it stands or
  through its monotonicity, which the float arithmetic shares; the two agree at every
  datetime at which a statement below evaluates it.
\<close>

type_synonym snowflake = int
type_synonym datetime = int
type_synonym timedelta = int

definition DISCORD_EPOCH :: int where
  "DISCORD_EPOCH = 1420070400000"

definition snowflake_time :: "snowflake \<Rightarrow> datetime" where
  "snowflake_time i = (i div 2 ^ 22 + DISCORD_EPOCH) * 1000"

definition discord_millis :: "datetime \<Rightarrow> int" where
  "discord_millis dt =
     (let x = dt - DISCORD_EPOCH * 1000
      in if 0 \<le> x then x div 1000 else - ((- x) div 1000))"

definition time_snowflake :: "datetime \<Rightarrow> snowflake" where
  "time_snowflake dt = discord_millis dt * 2 ^ 22"

section \<open>MessageRegistry.py\<close>

subsection \<open>The data\<close>

text \<open>
  The dataclass AutoDeleteChannel; its field \<^verbatim>\<open>id\<close> is named \<open>id_c\<close> here, and
  \<^verbatim>\<open>after\<close>, a discord.Object, is the snowflake it wraps.
\<close>

record AutoDeleteChannel =
  id_c :: int
  duration :: timedelta
  after :: snowflake

text \<open>
  The two tables of \<^verbatim>\<open>_init_db\<close>. \<^verbatim>\<open>channels\<close> has the primary key
  \<^verbatim>\<open>channel_id\<close>, so it is a map from the key to the rest of the row
  (\<^verbatim>\<open>duration_seconds\<close>, \<^verbatim>\<open>after\<close>); \<^verbatim>\<open>messages\<close> is the list of its rows
  (\<^verbatim>\<open>channel_id\<close>, \<^verbatim>\<open>message_id\<close>, \<^verbatim>\<open>delete_at\<close>) in insertion order.
\<close>

type_synonym channel_row = "timedelta \<times> snowflake"
type_synonym message_row = "int \<times> snowflake \<times> snowflake"

record tables =
  channels_tab :: "int \<rightharpoonup> channel_row"
  messages_tab :: "message_row list"

text \<open>
  The connection. Python's DB API opens a transaction implicitly at the first
  INSERT or DELETE; until \<^verbatim>\<open>commit\<close> the statements act on the \<open>working\<close> tables,
  which every query of this connection reads, and \<^verbatim>\<open>rollback\<close> returns to the
  \<open>committed\<close> ones.
\<close>

record database =
  committed :: tables
  working :: tables

definition execute :: "(tables \<Rightarrow> tables) \<Rightarrow> database \<Rightarrow> database" where
  "execute stmt d = d\<lparr>working := stmt (working d)\<rparr>"

definition commit :: "database \<Rightarrow> database" where
  "commit d = d\<lparr>committed := working d\<rparr>"

definition rollback :: "database \<Rightarrow> database" where
  "rollback d = d\<lparr>working := committed d\<rparr>"

text \<open>
  The exceptions that the modelled code raises, catches or tells apart. discord.Forbidden
  and discord.NotFound are subclasses of discord.HTTPException; \<open>HTTPException\<close> stands
  for every other HTTP failure (a server error, an unexpected status) and
  \<open>OtherException\<close> for an exception outside that hierarchy (a transport error).
\<close>

datatype exn =
  IntegrityError | OverflowError | AssertionError | Forbidden | NotFound | HTTPException
| OtherException

definition is_HTTPException :: "exn \<Rightarrow> bool" where
  "is_HTTPException e = (e = Forbidden \<or> e = NotFound \<or> e = HTTPException)"

text \<open>
  \<^verbatim>\<open>DELETE FROM channels WHERE channel_id = ?\<close>, with foreign keys on: deleting the
  row of a channel deletes the messages that reference it (ON DELETE CASCADE); where
  there is no such row, nothing is deleted.
\<close>

definition sql_delete_channel :: "int \<Rightarrow> tables \<Rightarrow> tables" where
  "sql_delete_channel c t =
     (case channels_tab t c of
        None \<Rightarrow> t
      | Some row \<Rightarrow>
          t\<lparr>channels_tab := (channels_tab t)(c := None),
            messages_tab := filter (\<lambda>(ch, m, d). ch \<noteq> c) (messages_tab t)\<rparr>)"

text \<open>
  \<^verbatim>\<open>INSERT INTO channels ... ON CONFLICT (channel_id) DO UPDATE SET ...\<close>: the row is
  inserted, or its two other columns are overwritten in place.
\<close>

definition sql_upsert_channel :: "int \<Rightarrow> channel_row \<Rightarrow> tables \<Rightarrow> tables" where
  "sql_upsert_channel c row t = t\<lparr>channels_tab := (channels_tab t)(c \<mapsto> row)\<rparr>"

text \<open>
  An INTEGER of SQLite is a signed 64-bit integer; binding a Python integer outside
  that range as a parameter raises OverflowError before the statement runs.
\<close>

definition sqlite_integer :: "int \<Rightarrow> bool" where
  "sqlite_integer x \<longleftrightarrow> - (2 ^ 63) \<le> x \<and> x < 2 ^ 63"

text \<open>
  \<^verbatim>\<open>INSERT INTO messages(channel_id, message_id, delete_at) VALUES (?, ?, ?)\<close>: raises
  OverflowError for a parameter that is no INTEGER, and fails on a duplicate primary key
  (channel_id, message_id) and on a channel_id with no row in channels.
\<close>

definition sql_insert_message :: "message_row \<Rightarrow> tables \<Rightarrow> exn + tables" where
  "sql_insert_message row t =
     (case row of (c, m, d) \<Rightarrow>
        if \<not> (sqlite_integer c \<and> sqlite_integer m \<and> sqlite_integer d) then Inl OverflowError
        else if (c, m) \<in> set (map (\<lambda>(c', m', d'). (c', m')) (messages_tab t)) then Inl IntegrityError
        else if channels_tab t c = None then Inl IntegrityError
        else Inr (t\<lparr>messages_tab := messages_tab t @ [row]\<rparr>))"

text \<open>
  The SELECT of \<^verbatim>\<open>pop_expired_messages\<close>: the inner join keeps a message whose channel
  has a row, the WHERE clause keeps it when \<^verbatim>\<open>? >= delete_at\<close> and
  \<^verbatim>\<open>message_id > channels.after\<close>; the result is ordered by channel_id.
\<close>

definition sql_select_expired :: "snowflake \<Rightarrow> tables \<Rightarrow> (int \<times> snowflake) list" where
  "sql_select_expired now t =
     sort_key fst
       (map (\<lambda>(c, m, d). (c, m))
         (filter (\<lambda>(c, m, d).
             case channels_tab t c of
               None \<Rightarrow> False
             | Some (dur, aft) \<Rightarrow> now \<ge> d \<and> m > aft)
           (messages_tab t)))"

text \<open>\<^verbatim>\<open>DELETE FROM messages WHERE ? >= delete_at\<close>.\<close>

definition sql_delete_expired :: "snowflake \<Rightarrow> tables \<Rightarrow> tables" where
  "sql_delete_expired now t =
     t\<lparr>messages_tab := filter (\<lambda>(c, m, d). \<not> now \<ge> d) (messages_tab t)\<rparr>"

text \<open>
  The registry: the in-memory mirror \<^verbatim>\<open>self.channels\<close> and the connection
  \<^verbatim>\<open>self.db\<close>.
\<close>

record MessageRegistry =
  channels :: "int \<rightharpoonup> AutoDeleteChannel"
  db :: database

subsection \<open>pop_expired_messages\<close>

text \<open>
  A discord.PartialMessage is the pair of its channel id and its own id. The argument
  \<open>utcnow\<close> is the clock reading \<^verbatim>\<open>discord.utils.utcnow()\<close> of the first line. The
  DELETE is left uncommitted: the caller commits or rolls back.
\<close>

type_synonym PartialMessage = "int \<times> snowflake"

definition pop_expired_messages ::
    "datetime \<Rightarrow> MessageRegistry \<Rightarrow> PartialMessage list \<times> MessageRegistry" where
  "pop_expired_messages utcnow r =
     (let now = time_snowflake utcnow;
          messages = sql_select_expired now (working (db r))
      in (messages, r\<lparr>db := execute (sql_delete_expired now) (db r)\<rparr>))"


subsection \<open>get_next_expiring_message\<close>

text \<open>
  \<^verbatim>\<open>SELECT ... FROM messages ORDER BY delete_at LIMIT 1\<close>, with no join and no cutoff;
  the deadline is decoded with \<^verbatim>\<open>snowflake_time\<close>. The pair (None, None) is \<open>None\<close>.
\<close>

definition get_next_expiring_message ::
    "MessageRegistry \<Rightarrow> (PartialMessage \<times> datetime) option" where
  "get_next_expiring_message r =
     (case sort_key (\<lambda>(c, m, d). d) (messages_tab (working (db r))) of
        [] \<Rightarrow> None
      | (c, m, d) # rest \<Rightarrow> Some ((c, m), snowflake_time d))"

subsection \<open>register_message\<close>

text \<open>
  A discord.Message is given by its channel id and its id; \<^verbatim>\<open>message.created_at\<close> is
  \<^verbatim>\<open>snowflake_time(message.id)\<close>. A failing INSERT raises before the commit and
  leaves the registry as it was.
\<close>

definition created_at :: "PartialMessage \<Rightarrow> datetime" where
  "created_at msg = snowflake_time (snd msg)"

definition register_message ::
    "PartialMessage \<Rightarrow> MessageRegistry \<Rightarrow> exn + (datetime option \<times> MessageRegistry)" where
  "register_message message r =
     (case channels r (fst message) of
        None \<Rightarrow> Inr (None, r)
      | Some channel_config \<Rightarrow>
          (let delete_at = created_at message + duration channel_config in
           case sql_insert_message (fst message, snd message, time_snowflake delete_at)
                  (working (db r)) of
             Inl e \<Rightarrow> Inl e
           | Inr t \<Rightarrow> Inr (Some delete_at, r\<lparr>db := commit ((db r)\<lparr>working := t\<rparr>)\<rparr>)))"

subsection \<open>register_channel and deregister_channel\<close>

text \<open>
  Each of the two methods is a sequence of statements; the list holds the registry after
  each statement, in order, and the method's result is the last one.
  \<^verbatim>\<open>register_channel\<close>: DELETE, INSERT, commit, then the assignment to
  \<^verbatim>\<open>self.channels\<close>. The column \<^verbatim>\<open>duration_seconds\<close> holds the duration.
\<close>

definition register_channel_steps ::
    "AutoDeleteChannel \<Rightarrow> MessageRegistry \<Rightarrow> MessageRegistry list" where
  "register_channel_steps channel_config r =
     (let r1 = r\<lparr>db := execute (sql_delete_channel (id_c channel_config)) (db r)\<rparr>;
          r2 = r1\<lparr>db := execute (sql_upsert_channel (id_c channel_config)
                       (duration channel_config, after channel_config)) (db r1)\<rparr>;
          r3 = r2\<lparr>db := commit (db r2)\<rparr>;
          r4 = r3\<lparr>channels := (channels r3)(id_c channel_config \<mapsto> channel_config)\<rparr>
      in [r1, r2, r3, r4])"

definition register_channel ::
    "AutoDeleteChannel \<Rightarrow> MessageRegistry \<Rightarrow> exn + MessageRegistry" where
  "register_channel channel_config r =
     (if duration channel_config > 0
      then Inr (last (register_channel_steps channel_config r))
      else Inl AssertionError)"

text \<open>
  \<^verbatim>\<open>deregister_channel\<close>: \<^verbatim>\<open>del self.channels[channel]\<close> first, which raises KeyError
  for an unknown channel (the method then returns False and does nothing else); then
  DELETE, then commit.
\<close>

definition deregister_channel_steps :: "int \<Rightarrow> MessageRegistry \<Rightarrow> MessageRegistry list" where
  "deregister_channel_steps channel r =
     (let r1 = r\<lparr>channels := (channels r)(channel := None)\<rparr>;
          r2 = r1\<lparr>db := execute (sql_delete_channel channel) (db r1)\<rparr>;
          r3 = r2\<lparr>db := commit (db r2)\<rparr>
      in [r1, r2, r3])"

definition deregister_channel :: "int \<Rightarrow> MessageRegistry \<Rightarrow> bool \<times> MessageRegistry" where
  "deregister_channel channel r =
     (case channels r channel of
        None \<Rightarrow> (False, r)
      | Some c \<Rightarrow> (True, last (deregister_channel_steps channel r)))"

subsection \<open>The context manager\<close>

text \<open>\<^verbatim>\<open>__aexit__\<close>: commit when the block ended normally, rollback when it raised.\<close>

definition aexit :: "exn option \<Rightarrow> MessageRegistry \<Rightarrow> MessageRegistry" where
  "aexit exc r =
     (case exc of
        None \<Rightarrow> r\<lparr>db := commit (db r)\<rparr>
      | Some e \<Rightarrow> r\<lparr>db := rollback (db r)\<rparr>)"

section \<open>AutoDeleteBot.py\<close>

subsection \<open>The bot and its collaborators\<close>

text \<open>
  The fields of the bot that the scheduler and the executor use. \<^verbatim>\<open>active_sleep\<close> is
  None or the task of a running \<^verbatim>\<open>asyncio.sleep(seconds)\<close>, given by its duration.
\<close>

record AutoDeleteBot =
  message_registry :: MessageRegistry
  work_pending :: bool
  wake_time :: datetime
  active_sleep :: "timedelta option"
  protect_pins :: bool

text \<open>
  What the chat platform and the clock answer during one call of
  \<^verbatim>\<open>clear_expired_messages\<close>: the reading of the clock in \<^verbatim>\<open>pop_expired_messages\<close>
  and the one taken for the group of each channel, the outcome of
  \<^verbatim>\<open>partial_channel.pins()\<close> (the ids of the pinned messages), of
  \<^verbatim>\<open>message.fetch()\<close> (the \<^verbatim>\<open>pinned\<close> attribute), whether \<^verbatim>\<open>get_channel\<close> has the
  channel in its cache, the outcome of \<^verbatim>\<open>fetch_channel\<close>, and the outcome of each
  deletion call (\<open>None\<close>: it succeeded).
\<close>

datatype deletion =
  Delete PartialMessage
| DeleteMessages int "PartialMessage list"

record collaborator =
  utcnow_pop :: datetime
  utcnow_group :: "int \<Rightarrow> datetime"
  pins :: "int \<Rightarrow> exn + snowflake list"
  fetch_pinned :: "PartialMessage \<Rightarrow> exn + bool"
  get_channel :: "int \<Rightarrow> bool"
  fetch_channel :: "int \<Rightarrow> exn option"
  delete_result :: "deletion \<Rightarrow> exn option"

text \<open>
  Calling an \<^verbatim>\<open>async def\<close> method returns a coroutine object; only \<^verbatim>\<open>await\<close> runs it
  and yields its result. A coroutine object defines neither \<^verbatim>\<open>__bool__\<close> nor
  \<^verbatim>\<open>__len__\<close>, so it is true wherever Python tests it.
\<close>

datatype 'a coroutine = Coroutine 'a

fun await :: "'a coroutine \<Rightarrow> 'a" where
  "await (Coroutine result) = result"

fun truth_value :: "'a coroutine \<Rightarrow> bool" where
  "truth_value (Coroutine result) = True"

subsection \<open>is_protected_message and fetch_or_deregister_channel\<close>

definition is_protected_message ::
    "collaborator \<Rightarrow> PartialMessage \<Rightarrow> (exn + bool) coroutine" where
  "is_protected_message env message =
     Coroutine
       (case fetch_pinned env message of
          Inr pinned \<Rightarrow> Inr pinned
        | Inl e \<Rightarrow> if is_HTTPException e then Inr False else Inl e)"

text \<open>
  The channel object is its id. On NotFound the channel is deregistered, which commits
  on the registry's connection, and the exception is raised again.
\<close>

definition fetch_or_deregister_channel ::
    "collaborator \<Rightarrow> int \<Rightarrow> MessageRegistry \<Rightarrow> (exn + int) \<times> MessageRegistry" where
  "fetch_or_deregister_channel env channel_id r =
     (if get_channel env channel_id then (Inr channel_id, r)
      else case fetch_channel env channel_id of
             None \<Rightarrow> (Inr channel_id, r)
           | Some e \<Rightarrow>
               if e = NotFound then (Inl e, snd (deregister_channel channel_id r))
               else (Inl e, r))"

subsection \<open>clear_expired_messages\<close>

text \<open>\<^verbatim>\<open>itertools.groupby\<close>: maximal runs of consecutive elements with equal keys.\<close>

function groupby :: "('a \<Rightarrow> 'k) \<Rightarrow> 'a list \<Rightarrow> ('k \<times> 'a list) list" where
  "groupby key [] = []"
| "groupby key (x # xs) =
     (key x, x # takeWhile (\<lambda>y. key y = key x) xs)
       # groupby key (dropWhile (\<lambda>y. key y = key x) xs)"
  by pat_completeness auto
termination
  by (relation "measure (\<lambda>(key, xs). length xs)")
     (auto simp: length_dropWhile_le less_Suc_eq_le)

text \<open>
  The pin protection of one group (the block under \<^verbatim>\<open>if self.protect_pins\<close>), up to the
  new value of \<^verbatim>\<open>message_group\<close>. With two or more messages the pins of the channel
  are fetched and filtered out, an HTTP failure leaving the group as it is. Otherwise
  the condition is \<^verbatim>\<open>message_group and self.is_protected_message(message_group[0])\<close>:
  the method is called, not awaited, so the second operand is the coroutine object.
\<close>

definition protect_pinned ::
    "collaborator \<Rightarrow> int \<Rightarrow> PartialMessage list \<Rightarrow> exn + PartialMessage list" where
  "protect_pinned env partial_channel message_group =
     (if length message_group > 1 then
        (case pins env partial_channel of
           Inr channel_pins \<Rightarrow> Inr (filter (\<lambda>m. snd m \<notin> set channel_pins) message_group)
         | Inl e \<Rightarrow> if is_HTTPException e then Inr message_group else Inl e)
      else
        (case message_group of
           [] \<Rightarrow> Inr message_group
         | m # rest \<Rightarrow>
             if truth_value (is_protected_message env m) then Inr [] else Inr message_group))"

text \<open>\<^verbatim>\<open>datetime.timedelta(days=13.8)\<close>: 13 days, 19 hours and 12 minutes.\<close>

definition bulk_age_limit :: timedelta where
  "bulk_age_limit = 1192320000000"

text \<open>
  \<^verbatim>\<open>for start in range(0, len(bulk_deletable), 100)\<close>, with the slice
  \<^verbatim>\<open>bulk_deletable[start:start + 100]\<close> as the chunk of each round.
\<close>

function chunk_loop :: "nat \<Rightarrow> 'a list \<Rightarrow> 'a list list" where
  "chunk_loop start xs =
     (if start < length xs
      then take 100 (drop start xs) # chunk_loop (start + 100) xs
      else [])"
  by pat_completeness auto
termination
  by (relation "measure (\<lambda>(start, xs). length xs - start)") auto

text \<open>
  The state of the loop over the groups: the deletion calls collected so far and the
  registry, which \<^verbatim>\<open>fetch_or_deregister_channel\<close> may change. The counters that only
  feed the log line are left out.
\<close>

record pass_state =
  deletions :: "deletion list"
  registry :: MessageRegistry

text \<open>
  The body of the loop for one group. \<open>Inr\<close> is the state after the body, also where the
  source says \<^verbatim>\<open>continue\<close>; \<open>Inl\<close> is an exception that no handler of the body catches.
\<close>

definition process_group ::
    "collaborator \<Rightarrow> bool \<Rightarrow> int \<times> PartialMessage list \<Rightarrow> pass_state \<Rightarrow> exn + pass_state" where
  "process_group env protect grp st =
     (case grp of (partial_channel, unfiltered) \<Rightarrow>
      case (if protect then protect_pinned env partial_channel unfiltered else Inr unfiltered) of
        Inl e \<Rightarrow> Inl e
      | Inr message_group \<Rightarrow>
          if protect \<and> message_group = [] then Inr st
          else
            (let time_limit = utcnow_group env partial_channel - bulk_age_limit;
                 bulk_deletable = filter (\<lambda>m. created_at m > time_limit) message_group;
                 non_bulk_deletable = filter (\<lambda>m. created_at m \<le> time_limit) message_group
             in case bulk_deletable of
                  [] \<Rightarrow> Inr (st\<lparr>deletions := deletions st @ map Delete non_bulk_deletable\<rparr>)
                | [m] \<Rightarrow>
                    Inr (st\<lparr>deletions := deletions st @ [Delete m] @ map Delete non_bulk_deletable\<rparr>)
                | m # m' # ms \<Rightarrow>
                    (if get_channel env partial_channel then
                       Inr (st\<lparr>deletions := deletions st
                              @ map (DeleteMessages partial_channel) (chunk_loop 0 bulk_deletable)
                              @ map Delete non_bulk_deletable\<rparr>)
                     else
                       case fetch_or_deregister_channel env partial_channel (registry st) of
                         (Inl e, r) \<Rightarrow>
                           if is_HTTPException e then Inr (st\<lparr>registry := r\<rparr>) else Inl e
                       | (Inr channel, r) \<Rightarrow>
                           Inr (st\<lparr>registry := r,
                                  deletions := deletions st
                                    @ map (DeleteMessages channel) (chunk_loop 0 bulk_deletable)
                                    @ map Delete non_bulk_deletable\<rparr>))))"

fun group_loop ::
    "collaborator \<Rightarrow> bool \<Rightarrow> (int \<times> PartialMessage list) list \<Rightarrow> pass_state
      \<Rightarrow> exn option \<times> pass_state" where
  "group_loop env protect [] st = (None, st)"
| "group_loop env protect (grp # grps) st =
     (case process_group env protect grp st of
        Inl e \<Rightarrow> (Some e, st)
      | Inr st' \<Rightarrow> group_loop env protect grps st')"

text \<open>
  The loop over \<^verbatim>\<open>zip(messages, results)\<close>: a Forbidden or NotFound result is logged
  and skipped, any other exception among the results is raised.
\<close>

fun check_results :: "(PartialMessage \<times> exn option) list \<Rightarrow> exn option" where
  "check_results [] = None"
| "check_results ((message, None) # rest) = check_results rest"
| "check_results ((message, Some e) # rest) =
     (if e = Forbidden then check_results rest
      else if e = NotFound then check_results rest
      else Some e)"

text \<open>
  One drain pass. The result is the exception that ended the pass, if any, the deletion
  calls that were issued (\<^verbatim>\<open>asyncio.gather\<close> starts them all; none is started when the
  loop over the groups raised), and the bot after \<^verbatim>\<open>__aexit__\<close>.
\<close>

definition clear_expired_messages ::
    "collaborator \<Rightarrow> AutoDeleteBot \<Rightarrow> exn option \<times> deletion list \<times> AutoDeleteBot" where
  "clear_expired_messages env self =
     (let self1 = self\<lparr>work_pending := False\<rparr>;
          (messages, r1) = pop_expired_messages (utcnow_pop env) (message_registry self1);
          messages_by_channel = groupby fst messages;
          (raised, st) = group_loop env (protect_pins self1) messages_by_channel
                           \<lparr>deletions = [], registry = r1\<rparr>
      in case raised of
           Some e \<Rightarrow> (Some e, [], self1\<lparr>message_registry := aexit (Some e) (registry st)\<rparr>)
         | None \<Rightarrow>
             (let results = map (delete_result env) (deletions st);
                  exc = check_results (zip messages results)
              in (exc, deletions st, self1\<lparr>message_registry := aexit exc (registry st)\<rparr>)))"

subsection \<open>The wake scheduler\<close>

text \<open>
  \<^verbatim>\<open>_shorten_sleep\<close>; the flag tells whether \<^verbatim>\<open>self.active_sleep.cancel()\<close> was called.
\<close>

definition shorten_sleep :: "datetime \<Rightarrow> AutoDeleteBot \<Rightarrow> AutoDeleteBot \<times> bool" where
  "shorten_sleep dt self =
     (if dt < wake_time self
      then (self\<lparr>wake_time := dt\<rparr>, active_sleep self \<noteq> None)
      else (self, False))"

text \<open>
  \<^verbatim>\<open>_register_message_for_deletion\<close>: the listener of \<^verbatim>\<open>on_message\<close>.
\<close>

definition register_message_for_deletion ::
    "PartialMessage \<Rightarrow> AutoDeleteBot \<Rightarrow> exn + (datetime option \<times> AutoDeleteBot \<times> bool)" where
  "register_message_for_deletion message self =
     (case register_message message (message_registry self) of
        Inl e \<Rightarrow> Inl e
      | Inr (None, r) \<Rightarrow> Inr (None, self\<lparr>message_registry := r\<rparr>, False)
      | Inr (Some delete_at, r) \<Rightarrow>
          (case shorten_sleep delete_at (self\<lparr>message_registry := r, work_pending := True\<rparr>) of
             (self', cancelled) \<Rightarrow> Inr (Some delete_at, self', cancelled)))"

text \<open>
  What happens to the monitor task while it is suspended, in the order of the list:
  at the given moment a message with the given deadline has been registered (the
  listener has set \<^verbatim>\<open>work_pending\<close> and called \<^verbatim>\<open>_shorten_sleep\<close>), or the task is
  cancelled by something else. The row that the registration adds to the queue is not
  part of the interrupt: the sleep loop reads \<^verbatim>\<open>wake_time\<close> and \<^verbatim>\<open>active_sleep\<close> only.
  The timer is exact: \<^verbatim>\<open>asyncio.sleep(seconds)\<close> that nothing cancels ends \<open>seconds\<close>
  after it began. An event dated before the present moment happens at the present
  moment.
\<close>

datatype interrupt =
  Registered datetime datetime
| Cancel datetime

fun interrupt_time :: "interrupt \<Rightarrow> datetime" where
  "interrupt_time (Registered t delete_at) = t"
| "interrupt_time (Cancel t) = t"

datatype wait_outcome = Returned | Raised | Blocked

text \<open>
  \<^verbatim>\<open>_sleep_until\<close>. \<open>sleep_until\<close> is the head of the \<^verbatim>\<open>while True\<close> loop at the moment
  \<open>now\<close>; \<open>await_sleep\<close> is the suspended \<^verbatim>\<open>await self.active_sleep\<close> of a round that
  read \<open>sleeping_until\<close>. The result is how the method ended, when, and the bot then;
  the \<^verbatim>\<open>finally\<close> clause has reset \<^verbatim>\<open>active_sleep\<close> on every way out of the \<^verbatim>\<open>try\<close>.
\<close>

fun sleep_until ::
    "datetime \<Rightarrow> interrupt list \<Rightarrow> AutoDeleteBot \<Rightarrow> wait_outcome \<times> datetime \<times> AutoDeleteBot"
and await_sleep ::
    "datetime \<Rightarrow> datetime \<Rightarrow> interrupt list \<Rightarrow> AutoDeleteBot
      \<Rightarrow> wait_outcome \<times> datetime \<times> AutoDeleteBot" where
  "sleep_until now evs self =
     (if wake_time self - now > 0
      then await_sleep (wake_time self) now evs (self\<lparr>active_sleep := Some (wake_time self - now)\<rparr>)
      else (Returned, now, self))"
| "await_sleep sleeping_until now [] self =
     (Returned, sleeping_until, self\<lparr>active_sleep := None\<rparr>)"
| "await_sleep sleeping_until now (ev # evs) self =
     (if interrupt_time ev \<ge> sleeping_until
      then (Returned, sleeping_until, self\<lparr>active_sleep := None\<rparr>)
      else
        (case ev of
           Registered t delete_at \<Rightarrow>
             (case shorten_sleep delete_at (self\<lparr>work_pending := True\<rparr>) of
                (self', cancelled) \<Rightarrow>
                  if cancelled then
                    (if sleeping_until = wake_time self'
                     then (Raised, max now t, self'\<lparr>active_sleep := None\<rparr>)
                     else sleep_until (max now t) evs (self'\<lparr>active_sleep := None\<rparr>))
                  else await_sleep sleeping_until (max now t) evs self')
         | Cancel t \<Rightarrow>
             (if sleeping_until = wake_time self
              then (Raised, max now t, self\<lparr>active_sleep := None\<rparr>)
              else sleep_until (max now t) evs (self\<lparr>active_sleep := None\<rparr>))))"

text \<open>
  \<^verbatim>\<open>self.work_pending.wait()\<close>: returns at once when the flag is set, otherwise when
  the next registration sets it; with nothing left to happen it never returns.
\<close>

definition work_pending_wait ::
    "datetime \<Rightarrow> interrupt list \<Rightarrow> AutoDeleteBot \<Rightarrow> wait_outcome \<times> datetime \<times> AutoDeleteBot" where
  "work_pending_wait now evs self =
     (if work_pending self then (Returned, now, self)
      else case evs of
             [] \<Rightarrow> (Blocked, now, self)
           | Registered t delete_at # rest \<Rightarrow>
               (Returned, max now t, fst (shorten_sleep delete_at (self\<lparr>work_pending := True\<rparr>)))
           | Cancel t # rest \<Rightarrow> (Raised, max now t, self))"

text \<open>\<^verbatim>\<open>_wait_until_needed\<close>, which runs between two drain passes.\<close>

definition wait_until_needed ::
    "datetime \<Rightarrow> interrupt list \<Rightarrow> AutoDeleteBot \<Rightarrow> wait_outcome \<times> datetime \<times> AutoDeleteBot" where
  "wait_until_needed now evs self =
     (case get_next_expiring_message (message_registry self) of
        None \<Rightarrow> work_pending_wait now evs self
      | Some (next_message, delete_at) \<Rightarrow> sleep_until now evs (self\<lparr>wake_time := delete_at\<rparr>))"

section \<open>Predicates of the statements\<close>

text \<open>
  Every channel of the in-memory mirror has a row in the committed \<^verbatim>\<open>channels\<close> table.
\<close>

definition mirror_durable :: "MessageRegistry \<Rightarrow> bool" where
  "mirror_durable r \<longleftrightarrow> dom (channels r) \<subseteq> dom (channels_tab (committed (db r)))"

text \<open>An interrupt that is a registration, not a cancellation from elsewhere.\<close>

fun is_registration :: "interrupt \<Rightarrow> bool" where
  "is_registration (Registered t delete_at) = True"
| "is_registration (Cancel t) = False"

section \<open>Concrete registries, bots and collaborators\<close>

text \<open>
  The inputs at which the theorems below are evaluated. \<open>epoch_ms k\<close> is the datetime
  \<open>k\<close> milliseconds after the Discord epoch. Both example channels keep a message for
  one second and have the cutoff 5; a row of the queue is given by its channel and the
  creation time of its message.
\<close>

definition epoch_ms :: "int \<Rightarrow> datetime" where
  "epoch_ms k = (DISCORD_EPOCH + k) * 1000"

definition example_config :: "int \<Rightarrow> AutoDeleteChannel" where
  "example_config c = \<lparr>id_c = c, duration = 1000000, after = 5\<rparr>"

definition example_message :: "int \<Rightarrow> datetime \<Rightarrow> PartialMessage" where
  "example_message c t = (c, time_snowflake t)"

definition example_row :: "int \<Rightarrow> datetime \<Rightarrow> message_row" where
  "example_row c t = (c, time_snowflake t, time_snowflake (t + 1000000))"

definition example_tables :: "message_row list \<Rightarrow> tables" where
  "example_tables rows =
     \<lparr>channels_tab = [1 \<mapsto> (1000000, 5), 2 \<mapsto> (1000000, 5)], messages_tab = rows\<rparr>"

definition example_registry :: "message_row list \<Rightarrow> MessageRegistry" where
  "example_registry rows =
     \<lparr>channels = [1 \<mapsto> example_config 1, 2 \<mapsto> example_config 2],
      db = \<lparr>committed = example_tables rows, working = example_tables rows\<rparr>\<rparr>"

definition example_bot :: "message_row list \<Rightarrow> bool \<Rightarrow> datetime \<Rightarrow> AutoDeleteBot" where
  "example_bot rows protect wake =
     \<lparr>message_registry = example_registry rows, work_pending = True,
      wake_time = wake, active_sleep = None, protect_pins = protect\<rparr>"

text \<open>
  A collaborator with one clock reading for the whole pass, no pinned message and an
  empty channel cache; the outcomes of \<^verbatim>\<open>fetch_channel\<close> and of the deletion calls are
  arguments.
\<close>

definition example_env ::
    "datetime \<Rightarrow> (int \<Rightarrow> exn option) \<Rightarrow> (deletion \<Rightarrow> exn option) \<Rightarrow> collaborator" where
  "example_env now fetch del =
     \<lparr>utcnow_pop = now, utcnow_group = (\<lambda>c. now), pins = (\<lambda>c. Inr []),
      fetch_pinned = (\<lambda>m. Inr False), get_channel = (\<lambda>c. False),
      fetch_channel = fetch, delete_result = del\<rparr>"

text \<open>Two messages of channel 1 and one of channel 2, 100 to 300 ms after the epoch.\<close>

definition three_rows :: "message_row list" where
  "three_rows = [example_row 1 (epoch_ms 100), example_row 1 (epoch_ms 200),
                 example_row 2 (epoch_ms 300)]"

text \<open>
  Three messages of channel 1: one from 100 ms after the epoch, two from about 23 days
  later.
\<close>

definition aged_rows :: "message_row list" where
  "aged_rows = [example_row 1 (epoch_ms 100), example_row 1 (epoch_ms 2000000000),
                example_row 1 (epoch_ms 2000000001)]"

text \<open>
  Channel 1 of the example registry enabled with the duration 1.2345 seconds, which the
  enable command accepts, and then a message created on 2026-11-03 at 12:00:00 UTC
  registered in it. \<open>projr\<close> takes the result out of \<open>Inr\<close>.
\<close>

definition fractional_config :: AutoDeleteChannel where
  "fractional_config = \<lparr>id_c = 1, duration = 1234500, after = 5\<rparr>"

definition fractional_registry :: MessageRegistry where
  "fractional_registry = projr (register_channel fractional_config (example_registry []))"

definition fractional_registered :: MessageRegistry where
  "fractional_registered =
     snd (projr (register_message (1, 1567146324787200000) fractional_registry))"

declare chunk_loop.simps [simp del]

declare sleep_until.simps [simp del]

lemmas example_defs = example_row_def example_message_def example_config_def example_tables_def
  example_registry_def example_bot_def example_env_def three_rows_def aged_rows_def
  epoch_ms_def fractional_config_def fractional_registry_def fractional_registered_def
  time_snowflake_def discord_millis_def snowflake_time_def DISCORD_EPOCH_def created_at_def
  bulk_age_limit_def sqlite_integer_def

lemmas model_defs = pop_expired_messages_def sql_select_expired_def sql_delete_expired_def
  sql_insert_message_def sql_upsert_channel_def sql_delete_channel_def
  execute_def commit_def rollback_def aexit_def clear_expired_messages_def process_group_def
  protect_pinned_def is_protected_message_def fetch_or_deregister_channel_def
  register_message_def register_channel_def register_channel_steps_def
  deregister_channel_def deregister_channel_steps_def is_HTTPException_def
  get_next_expiring_message_def shorten_sleep_def wait_until_needed_def work_pending_wait_def

section \<open>The expired-batch pop\<close>

lemma set_sql_select_expired:
  "(c, m) \<in> set (sql_select_expired now t) \<longleftrightarrow>
     (\<exists>d dur aft. (c, m, d) \<in> set (messages_tab t) \<and> channels_tab t c = Some (dur, aft)
        \<and> d \<le> now \<and> aft < m)"
  unfolding sql_select_expired_def
  by (force split: option.splits)

text \<open>
  C3. \<^verbatim>\<open>pop_expired_messages\<close> returns exactly the pending entries whose deadline is
  at or before now and whose message id is strictly greater than the current
  \<^verbatim>\<open>after\<close> of their channel; it then deletes every pending entry whose deadline is
  at or before now, whatever the cutoff, so an expired entry at or below the cutoff
  is absent from the batch and from the queue alike. The deletion is pending: the
  committed tables are untouched until the transaction is committed, and then hold
  the queue without the expired entries.
\<close>

theorem pop_expired_messages_batch_and_queue:
  "set (fst (pop_expired_messages utcnow r)) =
     {(c, m). \<exists>d dur aft. (c, m, d) \<in> set (messages_tab (working (db r)))
        \<and> channels_tab (working (db r)) c = Some (dur, aft)
        \<and> d \<le> time_snowflake utcnow \<and> aft < m}
   \<and> messages_tab (working (db (snd (pop_expired_messages utcnow r)))) =
       filter (\<lambda>(c, m, d). \<not> d \<le> time_snowflake utcnow) (messages_tab (working (db r)))
   \<and> channels_tab (working (db (snd (pop_expired_messages utcnow r)))) =
       channels_tab (working (db r))
   \<and> committed (db (snd (pop_expired_messages utcnow r))) = committed (db r)
   \<and> messages_tab (committed (commit (db (snd (pop_expired_messages utcnow r))))) =
       filter (\<lambda>(c, m, d). \<not> d \<le> time_snowflake utcnow) (messages_tab (working (db r)))
   \<and> channels (snd (pop_expired_messages utcnow r)) = channels r"
  by (auto simp: pop_expired_messages_def set_sql_select_expired sql_delete_expired_def
        execute_def commit_def Let_def)

section \<open>Deadlines\<close>

lemma discord_millis_mono: "a \<le> b \<Longrightarrow> discord_millis a \<le> discord_millis b"
proof -
  assume le: "a \<le> b"
  let ?x = "a - DISCORD_EPOCH * 1000"
  let ?y = "b - DISCORD_EPOCH * 1000"
  from le have xy: "?x \<le> ?y" by simp
  show ?thesis
  proof (cases "0 \<le> ?x")
    case True
    with xy have "0 \<le> ?y" by linarith
    moreover have "?x div 1000 \<le> ?y div 1000"
      using xy by (rule zdiv_mono1) simp
    ultimately show ?thesis
      using True by (simp add: discord_millis_def Let_def)
  next
    case False
    then have neg: "?x < 0" by simp
    show ?thesis
    proof (cases "0 \<le> ?y")
      case True
      have "0 \<le> (- ?x) div 1000"
        using neg by (intro pos_imp_zdiv_nonneg_iff[THEN iffD2]) simp_all
      moreover have "0 \<le> ?y div 1000"
        using True by (intro pos_imp_zdiv_nonneg_iff[THEN iffD2]) simp_all
      ultimately show ?thesis
        using True neg by (simp add: discord_millis_def Let_def)
    next
      case False
      have "(- ?y) div 1000 \<le> (- ?x) div 1000"
        using xy by (intro zdiv_mono1) simp_all
      then show ?thesis
        using False neg by (simp add: discord_millis_def Let_def)
    qed
  qed
qed

lemma time_snowflake_mono: "a \<le> b \<Longrightarrow> time_snowflake a \<le> time_snowflake b"
  using discord_millis_mono[of a b] by (simp add: time_snowflake_def)

text \<open>
  Channel 1 is enabled with the duration 1.2345 seconds, and a message created at
  1793707200000000 (2026-11-03, 12:00:00 UTC) is registered in it. The call returns the
  deadline T + duration, 1793707201234500, but the stored deadline is the snowflake of
  the millisecond before it, which decodes to 1793707201234000. A pop at
  1793707201234200, which is before T + duration, returns the message.
\<close>

theorem fractional_duration_pops_early:
  "register_channel fractional_config (example_registry []) = Inr fractional_registry
   \<and> 0 < duration fractional_config
   \<and> created_at (1, 1567146324787200000) = 1793707200000000
   \<and> register_message (1, 1567146324787200000) fractional_registry
        = Inr (Some 1793707201234500, fractional_registered)
   \<and> 1793707200000000 + duration fractional_config = 1793707201234500
   \<and> messages_tab (committed (db fractional_registered))
        = [(1, 1567146324787200000, 1567146329962971136)]
   \<and> snowflake_time 1567146329962971136 = 1793707201234000
   \<and> fst (pop_expired_messages 1793707201234200 fractional_registered)
        = [(1, 1567146324787200000)]
   \<and> (1793707201234200 :: datetime) < 1793707201234500"
  by (simp add: example_defs model_defs Let_def)

text \<open>
  C2, as the code has it. A message created at time T (\<open>snowflake_time m\<close>) in a channel
  that the mirror has with some duration and that has a row in the channels table, and
  that is not yet in the queue. When the ids and the snowflake of T + duration are
  INTEGERs of SQLite, \<^verbatim>\<open>register_message\<close> returns the deadline T + duration and commits
  a row whose stored deadline is \<^verbatim>\<open>time_snowflake\<close> of T + duration, that is T + duration
  at the millisecond resolution of a snowflake; for every now whose snowflake is an
  INTEGER the message is in the batch of \<^verbatim>\<open>pop_expired_messages\<close> if and only if the
  snowflake of now is at or above the stored deadline and the id of the message is
  strictly greater than the current \<^verbatim>\<open>after\<close> of the channel, which is the case whenever
  now is at or after T + duration and the id is above the cutoff. Otherwise the INSERT
  raises OverflowError and nothing is registered. The statement holds for every
  duration, in particular for the positive ones that \<^verbatim>\<open>register_channel\<close> accepts.
\<close>

theorem register_message_stores_snowflake_deadline:
  assumes "channels r c = Some cfg"
    and "channels_tab (working (db r)) c = Some (dur, aft)"
    and "(c, m) \<notin> set (map (\<lambda>(c', m', d'). (c', m')) (messages_tab (working (db r))))"
  shows "if sqlite_integer c \<and> sqlite_integer m
            \<and> sqlite_integer (time_snowflake (snowflake_time m + duration cfg))
         then \<exists>r'. register_message (c, m) r = Inr (Some (snowflake_time m + duration cfg), r')
            \<and> (c, m, time_snowflake (snowflake_time m + duration cfg))
                 \<in> set (messages_tab (committed (db r')))
            \<and> (\<forall>now. sqlite_integer (time_snowflake now) \<longrightarrow>
                   ((c, m) \<in> set (fst (pop_expired_messages now r'))
                      \<longleftrightarrow> time_snowflake now \<ge> time_snowflake (snowflake_time m + duration cfg)
                           \<and> m > aft)
                 \<and> (now \<ge> snowflake_time m + duration cfg \<and> m > aft
                      \<longrightarrow> (c, m) \<in> set (fst (pop_expired_messages now r'))))
         else register_message (c, m) r = Inl OverflowError"
proof (cases "sqlite_integer c \<and> sqlite_integer m
            \<and> sqlite_integer (time_snowflake (snowflake_time m + duration cfg))")
  case False
  then have "sql_insert_message (c, m, time_snowflake (snowflake_time m + duration cfg))
      (working (db r)) = Inl OverflowError"
    by (simp add: sql_insert_message_def)
  then have "register_message (c, m) r = Inl OverflowError"
    using assms(1) by (simp add: register_message_def created_at_def Let_def)
  with False show ?thesis by simp
next
  case True
  let ?D = "snowflake_time m + duration cfg"
  let ?t = "(working (db r))\<lparr>messages_tab :=
              messages_tab (working (db r)) @ [(c, m, time_snowflake ?D)]\<rparr>"
  let ?r' = "r\<lparr>db := commit ((db r)\<lparr>working := ?t\<rparr>)\<rparr>"
  have ins: "sql_insert_message (c, m, time_snowflake ?D) (working (db r)) = Inr ?t"
    using True assms(2,3) by (simp add: sql_insert_message_def)
  have reg: "register_message (c, m) r = Inr (Some ?D, ?r')"
    using assms(1) ins by (simp add: register_message_def created_at_def Let_def)
  have stored: "(c, m, time_snowflake ?D) \<in> set (messages_tab (committed (db ?r')))"
    by (simp add: commit_def)
  have only: "(c, m, d) \<in> set (messages_tab (working (db ?r'))) \<longleftrightarrow> d = time_snowflake ?D"
    for d
    using assms(3) by (force simp: commit_def)
  have chan: "channels_tab (working (db ?r')) c = Some (dur, aft)"
    using assms(2) by (simp add: commit_def)
  have pop: "(c, m) \<in> set (fst (pop_expired_messages now ?r'))
      \<longleftrightarrow> time_snowflake now \<ge> time_snowflake ?D \<and> m > aft"
    for now
    unfolding pop_expired_messages_def Let_def fst_conv set_sql_select_expired only chan
    by auto
  have late: "now \<ge> ?D \<and> m > aft \<longrightarrow> (c, m) \<in> set (fst (pop_expired_messages now ?r'))"
    for now
    using pop[of now] time_snowflake_mono[of ?D now] by blast
  have "\<exists>r'. register_message (c, m) r = Inr (Some ?D, r')
            \<and> (c, m, time_snowflake ?D) \<in> set (messages_tab (committed (db r')))
            \<and> (\<forall>now. sqlite_integer (time_snowflake now) \<longrightarrow>
                   ((c, m) \<in> set (fst (pop_expired_messages now r'))
                      \<longleftrightarrow> time_snowflake now \<ge> time_snowflake ?D \<and> m > aft)
                 \<and> (now \<ge> ?D \<and> m > aft
                      \<longrightarrow> (c, m) \<in> set (fst (pop_expired_messages now r'))))"
    using reg stored pop late by (intro exI[of _ ?r']) blast
  with True show ?thesis by simp
qed

text \<open>
  The theorem at a message created 100 ms after the epoch, in channel 1 of the example
  registry with an empty queue: its deadline is 1100 ms after the epoch; it is in the
  batch popped at that moment and not in the one popped a millisecond earlier.
\<close>

theorem register_message_stores_snowflake_deadline_witness:
  "\<exists>r'. register_message (1, time_snowflake (epoch_ms 100)) (example_registry [])
        = Inr (Some (epoch_ms 1100), r')
     \<and> (1, time_snowflake (epoch_ms 100), time_snowflake (epoch_ms 1100))
          \<in> set (messages_tab (committed (db r')))
     \<and> (1, time_snowflake (epoch_ms 100)) \<in> set (fst (pop_expired_messages (epoch_ms 1100) r'))
     \<and> (1, time_snowflake (epoch_ms 100)) \<notin> set (fst (pop_expired_messages (epoch_ms 1099) r'))"
proof -
  have h1: "channels (example_registry []) 1 = Some (example_config 1)"
    by (simp add: example_registry_def)
  have h2: "channels_tab (working (db (example_registry []))) 1 = Some (1000000, 5)"
    by (simp add: example_registry_def example_tables_def)
  have h3: "(1, time_snowflake (epoch_ms 100))
      \<notin> set (map (\<lambda>(c', m', d'). (c', m')) (messages_tab (working (db (example_registry [])))))"
    by (simp add: example_registry_def example_tables_def)
  have d: "snowflake_time (time_snowflake (epoch_ms 100)) + duration (example_config 1)
      = epoch_ms 1100"
    by (simp add: example_defs)
  have m: "(5::int) < time_snowflake (epoch_ms 100)"
    by (simp add: example_defs)
  have fits: "sqlite_integer 1 \<and> sqlite_integer (time_snowflake (epoch_ms 100))
      \<and> sqlite_integer (time_snowflake (epoch_ms 1100))
      \<and> sqlite_integer (time_snowflake (epoch_ms 1099))"
    by (simp add: example_defs)
  have at: "time_snowflake (epoch_ms 1100) \<le> time_snowflake (epoch_ms 1100)
      \<and> \<not> time_snowflake (epoch_ms 1100) \<le> time_snowflake (epoch_ms 1099)"
    by (simp add: example_defs)
  from register_message_stores_snowflake_deadline [OF h1 h2 h3] fits
  obtain r' where reg: "register_message (1, time_snowflake (epoch_ms 100)) (example_registry [])
        = Inr (Some (epoch_ms 1100), r')"
    and stored: "(1, time_snowflake (epoch_ms 100), time_snowflake (epoch_ms 1100))
          \<in> set (messages_tab (committed (db r')))"
    and pop: "\<And>now. sqlite_integer (time_snowflake now) \<Longrightarrow>
          (1, time_snowflake (epoch_ms 100)) \<in> set (fst (pop_expired_messages now r'))
            \<longleftrightarrow> time_snowflake now \<ge> time_snowflake (epoch_ms 1100) \<and> 5 < time_snowflake (epoch_ms 100)"
    unfolding d by auto
  have "(1, time_snowflake (epoch_ms 100)) \<in> set (fst (pop_expired_messages (epoch_ms 1100) r'))"
    using pop[of "epoch_ms 1100"] fits m at by simp
  moreover have "(1, time_snowflake (epoch_ms 100))
      \<notin> set (fst (pop_expired_messages (epoch_ms 1099) r'))"
    using pop[of "epoch_ms 1099"] fits m at by simp
  ultimately show ?thesis using reg stored by blast
qed

section \<open>Deregistering a channel\<close>

text \<open>
  C8. \<^verbatim>\<open>deregister_channel\<close> returns True exactly when the mirror has the channel, and
  on a channel that the mirror does not have it changes nothing. On a configured
  channel (in the mirror, with its row in the channels table) it returns True, and
  called again it returns False. After the first call the channel is in neither the
  mirror nor the committed channels table, no entry of the queue belongs to it,
  committed or not, and no \<^verbatim>\<open>pop_expired_messages\<close> returns a message of it.
\<close>

theorem deregister_channel_true_then_false:
  assumes "channels r c = Some cfg"
    and "channels_tab (working (db r)) c = Some row"
  shows "fst (deregister_channel c r) = True
     \<and> fst (deregister_channel c' r0) = (channels r0 c' \<noteq> None)
     \<and> (channels r0 c' = None \<longrightarrow> snd (deregister_channel c' r0) = r0)
     \<and> deregister_channel c (snd (deregister_channel c r)) = (False, snd (deregister_channel c r))
     \<and> channels (snd (deregister_channel c r)) c = None
     \<and> channels_tab (committed (db (snd (deregister_channel c r)))) c = None
     \<and> filter (\<lambda>(ch, m, d). ch = c) (messages_tab (committed (db (snd (deregister_channel c r))))) = []
     \<and> filter (\<lambda>(ch, m, d). ch = c) (messages_tab (working (db (snd (deregister_channel c r))))) = []
     \<and> (\<forall>now. filter (\<lambda>(ch, m). ch = c)
                 (fst (pop_expired_messages now (snd (deregister_channel c r)))) = [])"
proof -
  let ?r' = "snd (deregister_channel c r)"
  have r': "?r' = r\<lparr>channels := (channels r)(c := None),
                    db := commit (execute (sql_delete_channel c) (db r))\<rparr>"
    using assms(1) by (simp add: deregister_channel_def deregister_channel_steps_def Let_def)
  have t: "working (db ?r') =
      (working (db r))\<lparr>channels_tab := (channels_tab (working (db r)))(c := None),
        messages_tab := filter (\<lambda>(ch, m, d). ch \<noteq> c) (messages_tab (working (db r)))\<rparr>"
    using assms(2) by (simp add: r' commit_def execute_def sql_delete_channel_def)
  have c: "committed (db ?r') = working (db ?r')"
    by (simp add: r' commit_def)
  have nopop: "(c, m) \<notin> set (fst (pop_expired_messages now ?r'))" for now m
    unfolding pop_expired_messages_def Let_def fst_conv set_sql_select_expired t by simp
  have "filter (\<lambda>(ch, m). ch = c) (fst (pop_expired_messages now ?r')) = []" for now
    using nopop[of _ now] by (auto simp: filter_empty_conv)
  moreover have "fst (deregister_channel c r) = True"
    using assms(1) by (simp add: deregister_channel_def)
  moreover have "fst (deregister_channel c' r0) = (channels r0 c' \<noteq> None)"
    by (simp add: deregister_channel_def split: option.splits)
  moreover have "channels r0 c' = None \<longrightarrow> snd (deregister_channel c' r0) = r0"
    by (simp add: deregister_channel_def)
  moreover have "deregister_channel c ?r' = (False, ?r')"
    by (subst deregister_channel_def) (simp add: r')
  moreover have "channels ?r' c = None" by (simp add: r')
  moreover have "channels_tab (committed (db ?r')) c = None" by (simp add: c t)
  moreover have "filter (\<lambda>(ch, m, d). ch = c) (messages_tab (committed (db ?r'))) = []"
    by (auto simp: c t filter_empty_conv)
  moreover have "filter (\<lambda>(ch, m, d). ch = c) (messages_tab (working (db ?r'))) = []"
    by (auto simp: t filter_empty_conv)
  ultimately show ?thesis by blast
qed

text \<open>
  The theorem at channel 1 of the example registry, whose queue holds two messages of
  channel 1 and one of channel 2.
\<close>

theorem deregister_channel_true_then_false_witness:
  "fst (deregister_channel 1 (example_registry three_rows)) = True
   \<and> fst (deregister_channel 1 (snd (deregister_channel 1 (example_registry three_rows)))) = False
   \<and> messages_tab (committed (db (snd (deregister_channel 1 (example_registry three_rows)))))
        = [example_row 2 (epoch_ms 300)]
   \<and> filter (\<lambda>(ch, m). ch = 1)
        (fst (pop_expired_messages (epoch_ms 5000)
               (snd (deregister_channel 1 (example_registry three_rows))))) = []"
proof -
  have h1: "channels (example_registry three_rows) 1 = Some (example_config 1)"
    by (simp add: example_registry_def)
  have h2: "channels_tab (working (db (example_registry three_rows))) 1 = Some (1000000, 5)"
    by (simp add: example_registry_def example_tables_def)
  have rows: "messages_tab (committed (db (snd (deregister_channel 1 (example_registry three_rows)))))
        = [example_row 2 (epoch_ms 300)]"
    by (simp add: example_registry_def example_tables_def three_rows_def example_row_def
          deregister_channel_def deregister_channel_steps_def Let_def execute_def commit_def
          sql_delete_channel_def)
  show ?thesis
    using deregister_channel_true_then_false [OF h1 h2, of 1 "example_registry three_rows"] rows
    by simp
qed

section \<open>Enabling a channel again\<close>

text \<open>
  C9. \<^verbatim>\<open>register_channel\<close> on a channel that already has a row in the channels table
  deletes that row before it inserts the new one, and the cascade of the foreign key
  deletes every entry queued for the channel: after the call no entry of the queue
  belongs to the channel, committed or not, the entries of the other channels are all
  still there, the committed row holds the new duration and cutoff, and the mirror
  holds the new config.
\<close>

theorem register_channel_reenable_empties_queue:
  assumes "duration cfg > 0"
    and "channels_tab (working (db r)) (id_c cfg) = Some row"
  shows "\<exists>r'. register_channel cfg r = Inr r'
     \<and> filter (\<lambda>(ch, m, d). ch = id_c cfg) (messages_tab (working (db r'))) = []
     \<and> filter (\<lambda>(ch, m, d). ch = id_c cfg) (messages_tab (committed (db r'))) = []
     \<and> filter (\<lambda>(ch, m, d). ch \<noteq> id_c cfg) (messages_tab (committed (db r')))
         = filter (\<lambda>(ch, m, d). ch \<noteq> id_c cfg) (messages_tab (working (db r)))
     \<and> channels_tab (committed (db r')) (id_c cfg) = Some (duration cfg, after cfg)
     \<and> channels r' (id_c cfg) = Some cfg"
proof -
  let ?r' = "last (register_channel_steps cfg r)"
  have t: "working (db ?r') =
      (working (db r))\<lparr>channels_tab :=
          (channels_tab (working (db r)))(id_c cfg \<mapsto> (duration cfg, after cfg)),
        messages_tab := filter (\<lambda>(ch, m, d). ch \<noteq> id_c cfg) (messages_tab (working (db r)))\<rparr>"
    using assms(2)
    by (simp add: register_channel_steps_def Let_def commit_def execute_def sql_delete_channel_def
          sql_upsert_channel_def)
  have c: "committed (db ?r') = working (db ?r')"
    by (simp add: register_channel_steps_def Let_def commit_def)
  have m: "channels ?r' (id_c cfg) = Some cfg"
    by (simp add: register_channel_steps_def Let_def)
  have "register_channel cfg r = Inr ?r'"
    using assms(1) by (simp add: register_channel_def)
  moreover have "filter (\<lambda>(ch, m, d). ch = id_c cfg) (messages_tab (working (db ?r'))) = []"
    by (auto simp: t filter_empty_conv)
  moreover have "filter (\<lambda>(ch, m, d). ch = id_c cfg) (messages_tab (committed (db ?r'))) = []"
    by (auto simp: c t filter_empty_conv)
  moreover have "filter (\<lambda>(ch, m, d). ch \<noteq> id_c cfg) (messages_tab (committed (db ?r')))
         = filter (\<lambda>(ch, m, d). ch \<noteq> id_c cfg) (messages_tab (working (db r)))"
    by (simp add: c t)
  moreover have "channels_tab (committed (db ?r')) (id_c cfg) = Some (duration cfg, after cfg)"
    by (simp add: c t)
  ultimately show ?thesis using m by blast
qed

text \<open>
  The theorem at channel 1 of the example registry, enabled again with two seconds and
  the cutoff 7: the two queued messages of channel 1 have ids above 7 and are gone.
\<close>

theorem register_channel_reenable_empties_queue_witness:
  "\<exists>r'. register_channel \<lparr>id_c = 1, duration = 2000000, after = 7\<rparr> (example_registry three_rows) = Inr r'
     \<and> filter (\<lambda>(ch, m, d). ch = 1) (messages_tab (working (db r'))) = []
     \<and> filter (\<lambda>(ch, m, d). ch = 1) (messages_tab (committed (db r'))) = []
     \<and> channels_tab (committed (db r')) 1 = Some (2000000, 7)"
proof -
  have h1: "duration \<lparr>id_c = 1, duration = 2000000, after = 7\<rparr> > 0"
    by simp
  have h2: "channels_tab (working (db (example_registry three_rows)))
              (id_c \<lparr>id_c = 1, duration = 2000000, after = 7\<rparr>) = Some (1000000, 5)"
    by (simp add: example_registry_def example_tables_def)
  show ?thesis
    using register_channel_reenable_empties_queue [OF h1 h2] by auto
qed

section \<open>The mirror and the durable configuration\<close>

text \<open>
  \<^verbatim>\<open>deregister_channel\<close> on channel 1 of the example registry, which is configured: after
  its first statement the mirror has lost the channel, while the connection is as it
  was and the committed channels table still has the row. The mirror is updated before
  the durable write.
\<close>

theorem deregister_updates_mirror_first:
  "channels (example_registry three_rows) 1 \<noteq> None
   \<and> fst (deregister_channel 1 (example_registry three_rows))
   \<and> channels (hd (deregister_channel_steps 1 (example_registry three_rows))) 1 = None
   \<and> channels_tab (committed (db (hd (deregister_channel_steps 1 (example_registry three_rows))))) 1
        = Some (1000000, 5)
   \<and> db (hd (deregister_channel_steps 1 (example_registry three_rows)))
        = db (example_registry three_rows)"
  by (simp add: example_defs model_defs Let_def)

text \<open>
  C5, as the code has it. From a registry whose mirror holds only channels with a
  committed row, and with no uncommitted change to the channels table:
  \<^verbatim>\<open>register_channel\<close> leaves the mirror untouched until its last statement, which
  runs on the connection as the commit left it, with the new row committed;
  \<^verbatim>\<open>deregister_channel\<close> removes the channel from the mirror in its first statement,
  before the connection is touched, and commits the deletion of the row afterwards.
  After every statement of either method each channel of the mirror has a committed
  row, and at the end of either the channels table has again no uncommitted change.
\<close>

theorem mirror_update_order:
  assumes "mirror_durable r"
    and "channels_tab (working (db r)) = channels_tab (committed (db r))"
  shows "list_all mirror_durable (register_channel_steps cfg r)
     \<and> list_all (\<lambda>s. channels s = channels r) (butlast (register_channel_steps cfg r))
     \<and> channels (last (register_channel_steps cfg r)) = (channels r)(id_c cfg \<mapsto> cfg)
     \<and> db (last (register_channel_steps cfg r)) = db (last (butlast (register_channel_steps cfg r)))
     \<and> channels_tab (committed (db (last (butlast (register_channel_steps cfg r))))) (id_c cfg)
          = Some (duration cfg, after cfg)
     \<and> list_all mirror_durable (deregister_channel_steps c r)
     \<and> list_all (\<lambda>s. channels s = (channels r)(c := None)) (deregister_channel_steps c r)
     \<and> db (hd (deregister_channel_steps c r)) = db r
     \<and> channels_tab (committed (db (last (deregister_channel_steps c r)))) c = None
     \<and> channels_tab (working (db (last (register_channel_steps cfg r))))
          = channels_tab (committed (db (last (register_channel_steps cfg r))))
     \<and> channels_tab (working (db (last (deregister_channel_steps c r))))
          = channels_tab (committed (db (last (deregister_channel_steps c r))))"
proof -
  have reg: "list_all mirror_durable (register_channel_steps cfg r)"
    using assms
    by (auto simp: mirror_durable_def register_channel_steps_def Let_def execute_def commit_def
          sql_delete_channel_def sql_upsert_channel_def split: option.splits)
  have dereg: "list_all mirror_durable (deregister_channel_steps c r)"
    using assms
    by (auto simp: mirror_durable_def deregister_channel_steps_def Let_def execute_def commit_def
          sql_delete_channel_def split: option.splits)
  have rest: "list_all (\<lambda>s. channels s = channels r) (butlast (register_channel_steps cfg r))
     \<and> channels (last (register_channel_steps cfg r)) = (channels r)(id_c cfg \<mapsto> cfg)
     \<and> db (last (register_channel_steps cfg r)) = db (last (butlast (register_channel_steps cfg r)))
     \<and> channels_tab (committed (db (last (butlast (register_channel_steps cfg r))))) (id_c cfg)
          = Some (duration cfg, after cfg)"
    by (simp add: register_channel_steps_def Let_def execute_def commit_def
          sql_delete_channel_def sql_upsert_channel_def split: option.splits)
  have rest2: "list_all (\<lambda>s. channels s = (channels r)(c := None)) (deregister_channel_steps c r)
     \<and> db (hd (deregister_channel_steps c r)) = db r
     \<and> channels_tab (committed (db (last (deregister_channel_steps c r)))) c = None
     \<and> channels_tab (working (db (last (register_channel_steps cfg r))))
          = channels_tab (committed (db (last (register_channel_steps cfg r))))
     \<and> channels_tab (working (db (last (deregister_channel_steps c r))))
          = channels_tab (committed (db (last (deregister_channel_steps c r))))"
    by (simp add: register_channel_steps_def deregister_channel_steps_def Let_def execute_def
          commit_def sql_delete_channel_def split: option.splits)
  from reg dereg rest rest2 show ?thesis by simp
qed

text \<open>
  The theorem at the example registry, for channel 1 enabled again and channel 2
  disabled.
\<close>

theorem mirror_update_order_witness:
  "list_all mirror_durable (register_channel_steps (example_config 1) (example_registry three_rows))
   \<and> list_all mirror_durable (deregister_channel_steps 2 (example_registry three_rows))
   \<and> channels (hd (deregister_channel_steps 2 (example_registry three_rows))) 2 = None
   \<and> db (hd (deregister_channel_steps 2 (example_registry three_rows)))
        = db (example_registry three_rows)"
proof -
  have h1: "mirror_durable (example_registry three_rows)"
    by (simp add: mirror_durable_def example_registry_def example_tables_def)
  have h2: "channels_tab (working (db (example_registry three_rows)))
      = channels_tab (committed (db (example_registry three_rows)))"
    by (simp add: example_registry_def)
  have "list_all (\<lambda>s. channels s = (channels (example_registry three_rows))(2 := None))
          (deregister_channel_steps 2 (example_registry three_rows))"
    using mirror_update_order [OF h1 h2, of "example_config 1" 2] by simp
  then have "channels (hd (deregister_channel_steps 2 (example_registry three_rows))) 2 = None"
    by (simp add: deregister_channel_steps_def Let_def)
  then show ?thesis
    using mirror_update_order [OF h1 h2, of "example_config 1" 2] by simp
qed

section \<open>The deletion calls of a group\<close>

lemma concat_chunk_loop: "concat (chunk_loop start xs) = drop start xs"
proof (induction start xs rule: chunk_loop.induct)
  case (1 start xs)
  show ?case
  proof (cases "start < length xs")
    case True
    have "take 100 (drop start xs) @ drop 100 (drop start xs) = drop start xs"
      by (rule append_take_drop_id)
    then have "take 100 (drop start xs) @ drop (start + 100) xs = drop start xs"
      by (simp add: add.commute)
    with True 1 show ?thesis
      by (subst chunk_loop.simps) simp
  next
    case False
    then show ?thesis by (subst chunk_loop.simps) simp
  qed
qed

lemma chunk_loop_sizes:
  "list_all (\<lambda>chunk. 0 < length chunk \<and> length chunk \<le> 100) (chunk_loop start xs)"
proof (induction start xs rule: chunk_loop.induct)
  case (1 start xs)
  show ?case
  proof (cases "start < length xs")
    case True
    with 1 show ?thesis by (subst chunk_loop.simps) simp
  next
    case False
    then show ?thesis by (subst chunk_loop.simps) simp
  qed
qed

lemma chunk_loop_250:
  "length xs = 250 \<Longrightarrow> map length (chunk_loop 0 xs) = [100, 100, 50]"
  by (simp add: chunk_loop.simps)

lemma chunk_loop_Nil: "chunk_loop 0 [] = []"
  by (simp add: chunk_loop.simps)

text \<open>
  The body of the loop once the pin protection has left a group to delete: the case
  distinction on the messages younger than the limit.
\<close>

lemma process_group_body:
  assumes "(if protect then protect_pinned env c unfiltered else Inr unfiltered) = Inr message_group"
    and "protect \<longrightarrow> message_group \<noteq> []"
  shows "process_group env protect (c, unfiltered) st =
     (case filter (\<lambda>m. created_at m > utcnow_group env c - bulk_age_limit) message_group of
        [] \<Rightarrow> Inr (st\<lparr>deletions := deletions st @ map Delete
                 (filter (\<lambda>m. created_at m \<le> utcnow_group env c - bulk_age_limit) message_group)\<rparr>)
      | [m] \<Rightarrow> Inr (st\<lparr>deletions := deletions st @ [Delete m] @ map Delete
                 (filter (\<lambda>m. created_at m \<le> utcnow_group env c - bulk_age_limit) message_group)\<rparr>)
      | m # m' # ms \<Rightarrow>
          (if get_channel env c then
             Inr (st\<lparr>deletions := deletions st
                    @ map (DeleteMessages c) (chunk_loop 0
                        (filter (\<lambda>m. created_at m > utcnow_group env c - bulk_age_limit) message_group))
                    @ map Delete
                        (filter (\<lambda>m. created_at m \<le> utcnow_group env c - bulk_age_limit) message_group)\<rparr>)
           else
             case fetch_or_deregister_channel env c (registry st) of
               (Inl e, r) \<Rightarrow> if is_HTTPException e then Inr (st\<lparr>registry := r\<rparr>) else Inl e
             | (Inr channel, r) \<Rightarrow>
                 Inr (st\<lparr>registry := r,
                        deletions := deletions st
                          @ map (DeleteMessages channel) (chunk_loop 0
                              (filter (\<lambda>m. created_at m > utcnow_group env c - bulk_age_limit) message_group))
                          @ map Delete
                              (filter (\<lambda>m. created_at m \<le> utcnow_group env c - bulk_age_limit) message_group)\<rparr>)))"
proof -
  have "\<not> (protect \<and> message_group = [])" using assms(2) by blast
  then show ?thesis
    unfolding process_group_def prod.case assms(1) sum.case Let_def
    by (simp only: if_False)
qed

text \<open>
  A pass over the example registry with the queue of \<open>aged_rows\<close>, 5 seconds after the
  youngest message: the group of channel 1 has two messages younger than the limit and
  one older; the channel is not in the cache and \<^verbatim>\<open>fetch_channel\<close> fails with Forbidden.
  The older message is in the popped batch, no deletion call at all is issued, and the
  pass ends normally, so the emptied queue is committed.
\<close>

theorem unresolved_channel_skips_old_message:
  "example_message 1 (epoch_ms 100)
     \<in> set (fst (pop_expired_messages (epoch_ms 2000005000) (example_registry aged_rows)))
   \<and> created_at (example_message 1 (epoch_ms 100))
        \<le> epoch_ms 2000005000 - bulk_age_limit
   \<and> fst (clear_expired_messages
            (example_env (epoch_ms 2000005000) (\<lambda>c. Some Forbidden) (\<lambda>d. None))
            (example_bot aged_rows False (epoch_ms 0))) = None
   \<and> fst (snd (clear_expired_messages
            (example_env (epoch_ms 2000005000) (\<lambda>c. Some Forbidden) (\<lambda>d. None))
            (example_bot aged_rows False (epoch_ms 0)))) = []
   \<and> messages_tab (committed (db (message_registry (snd (snd (clear_expired_messages
            (example_env (epoch_ms 2000005000) (\<lambda>c. Some Forbidden) (\<lambda>d. None))
            (example_bot aged_rows False (epoch_ms 0)))))))) = []"
  by (simp add: example_defs model_defs Let_def)

text \<open>
  C7, as the code has it. For the group of a channel, after the pin protection when it
  is on, with at most one message younger than the limit (now minus 13.8 days) or with
  the channel object resolved (from the cache, or by a \<^verbatim>\<open>fetch_channel\<close> that
  succeeds): the calls added for the group are, for the younger messages, one single
  delete when there is exactly one and otherwise one bulk delete per chunk, followed
  by one single delete for each older message, whatever the size of the group. The
  chunks are the younger messages in order, each of 1 to 100 messages; 250 younger
  messages give chunks of 100, 100 and 50.
\<close>

theorem process_group_deletion_calls:
  assumes "(if protect then protect_pinned env c unfiltered else Inr unfiltered) = Inr message_group"
    and "protect \<longrightarrow> message_group \<noteq> []"
    and "bulk = filter (\<lambda>m. created_at m > utcnow_group env c - bulk_age_limit) message_group"
    and "old = filter (\<lambda>m. created_at m \<le> utcnow_group env c - bulk_age_limit) message_group"
    and "length bulk \<le> 1 \<or> get_channel env c \<or> fetch_channel env c = None"
  shows "\<exists>st'. process_group env protect (c, unfiltered) st = Inr st'
     \<and> deletions st' = deletions st
          @ (if length bulk = 1 then map Delete bulk
             else map (DeleteMessages c) (chunk_loop 0 bulk))
          @ map Delete old
     \<and> concat (chunk_loop 0 bulk) = bulk
     \<and> list_all (\<lambda>chunk. 0 < length chunk \<and> length chunk \<le> 100) (chunk_loop 0 bulk)
     \<and> (length bulk = 250 \<longrightarrow> map length (chunk_loop 0 bulk) = [100, 100, 50])"
proof -
  have c1: "concat (chunk_loop 0 bulk) = bulk"
    using concat_chunk_loop[of 0 bulk] by simp
  have c2: "list_all (\<lambda>chunk. 0 < length chunk \<and> length chunk \<le> 100) (chunk_loop 0 bulk)"
    by (rule chunk_loop_sizes)
  have c3: "length bulk = 250 \<longrightarrow> map length (chunk_loop 0 bulk) = [100, 100, 50]"
    using chunk_loop_250[of bulk] by blast
  note body = process_group_body[OF assms(1,2), of st, folded assms(3) assms(4)]
  have calls: "\<exists>st'. process_group env protect (c, unfiltered) st = Inr st'
     \<and> deletions st' = deletions st
          @ (if length bulk = 1 then map Delete bulk
             else map (DeleteMessages c) (chunk_loop 0 bulk))
          @ map Delete old"
  proof (cases bulk)
    case Nil
    then show ?thesis
      unfolding body by (simp add: chunk_loop_Nil)
  next
    case (Cons m ms)
    note outer = Cons
    show ?thesis
    proof (cases ms)
      case Nil
      with outer show ?thesis
        unfolding body by simp
    next
      case (Cons m' ms')
      with outer have two: "bulk = m # m' # ms'" by simp
      then have len: "length bulk \<noteq> 1" by simp
      from two assms(5) have res: "get_channel env c \<or> fetch_channel env c = None"
        by simp
      have "\<exists>r. process_group env protect (c, unfiltered) st =
          Inr (st\<lparr>registry := r,
                 deletions := deletions st @ map (DeleteMessages c) (chunk_loop 0 bulk)
                 @ map Delete old\<rparr>)"
      proof (cases "get_channel env c")
        case True
        have "process_group env protect (c, unfiltered) st =
          Inr (st\<lparr>registry := registry st,
                 deletions := deletions st @ map (DeleteMessages c) (chunk_loop 0 bulk)
                 @ map Delete old\<rparr>)"
          unfolding body using True by (simp add: two)
        then show ?thesis by (rule exI)
      next
        case False
        with res have "fetch_channel env c = None" by simp
        with False have "fetch_or_deregister_channel env c (registry st) = (Inr c, registry st)"
          by (simp add: fetch_or_deregister_channel_def)
        with False have "process_group env protect (c, unfiltered) st =
          Inr (st\<lparr>registry := registry st,
                 deletions := deletions st @ map (DeleteMessages c) (chunk_loop 0 bulk)
                 @ map Delete old\<rparr>)"
          unfolding body by (simp add: two)
        then show ?thesis by (rule exI)
      qed
      then obtain r where pg: "process_group env protect (c, unfiltered) st =
          Inr (st\<lparr>registry := r,
                 deletions := deletions st @ map (DeleteMessages c) (chunk_loop 0 bulk)
                 @ map Delete old\<rparr>)" ..
      show ?thesis unfolding pg using len by simp
    qed
  qed
  from calls obtain st' where a: "process_group env protect (c, unfiltered) st = Inr st'"
    and b: "deletions st' = deletions st
          @ (if length bulk = 1 then map Delete bulk
             else map (DeleteMessages c) (chunk_loop 0 bulk))
          @ map Delete old"
    by (elim exE conjE)
  show ?thesis
    by (rule exI[of _ st'], intro conjI) (rule a b c1 c2 c3)+
qed

text \<open>
  The theorem at the group of \<open>aged_rows\<close> with a \<^verbatim>\<open>fetch_channel\<close> that succeeds: one
  bulk call for the two younger messages, one single delete for the older one.
\<close>

theorem process_group_deletion_calls_witness:
  "\<exists>st'. process_group (example_env (epoch_ms 2000005000) (\<lambda>c. None) (\<lambda>d. None)) False
       (1, [example_message 1 (epoch_ms 100), example_message 1 (epoch_ms 2000000000),
            example_message 1 (epoch_ms 2000000001)])
       \<lparr>deletions = [], registry = example_registry aged_rows\<rparr> = Inr st'
     \<and> deletions st' =
         [DeleteMessages 1 [example_message 1 (epoch_ms 2000000000),
                            example_message 1 (epoch_ms 2000000001)],
          Delete (example_message 1 (epoch_ms 100))]"
proof -
  let ?env = "example_env (epoch_ms 2000005000) (\<lambda>c. None) (\<lambda>d. None)"
  let ?group = "[example_message 1 (epoch_ms 100),
                 example_message 1 (epoch_ms 2000000000),
                 example_message 1 (epoch_ms 2000000001)]"
  let ?bulk = "[example_message 1 (epoch_ms 2000000000),
                example_message 1 (epoch_ms 2000000001)]"
  let ?old = "[example_message 1 (epoch_ms 100)]"
  have h1: "(if False then protect_pinned ?env 1 ?group else Inr ?group) = Inr ?group"
    by simp
  have h2: "False \<longrightarrow> ?group \<noteq> []"
    by simp
  have h3: "?bulk = filter (\<lambda>m. created_at m > utcnow_group ?env 1 - bulk_age_limit) ?group"
    by (simp add: example_defs)
  have h4: "?old = filter (\<lambda>m. created_at m \<le> utcnow_group ?env 1 - bulk_age_limit) ?group"
    by (simp add: example_defs)
  have h5: "length ?bulk \<le> 1 \<or> get_channel ?env 1 \<or> fetch_channel ?env 1 = None"
    by (simp add: example_env_def)
  have chunks: "chunk_loop 0 ?bulk = [?bulk]"
    by (simp add: chunk_loop.simps)
  show ?thesis
    using process_group_deletion_calls [where protect = False and env = ?env and c = 1
        and unfiltered = ?group and message_group = ?group and bulk = ?bulk and old = ?old
        and st = "\<lparr>deletions = [], registry = example_registry aged_rows\<rparr>",
        OF h1 h2 h3 h4 h5]
    unfolding chunks by simp
qed

section \<open>Pin protection of a single message\<close>

text \<open>
  C4 at a failing input. Pin protection is on, the queue holds one expired message, and
  fetching it succeeds and says that it is not pinned. The awaited
  \<^verbatim>\<open>is_protected_message\<close> would answer False, yet the pass issues no deletion call
  and ends normally, so the removal of the entry is committed and the message is never
  deleted: the condition tests the coroutine object, which is always true. With pin
  protection off the same pass issues the single delete.
\<close>

theorem single_message_is_always_protected:
  "fst (pop_expired_messages (epoch_ms 5000)
          (example_registry [example_row 1 (epoch_ms 100)]))
     = [example_message 1 (epoch_ms 100)]
   \<and> await (is_protected_message
              (example_env (epoch_ms 5000) (\<lambda>c. None) (\<lambda>d. None))
              (example_message 1 (epoch_ms 100))) = Inr False
   \<and> fst (clear_expired_messages
            (example_env (epoch_ms 5000) (\<lambda>c. None) (\<lambda>d. None))
            (example_bot [example_row 1 (epoch_ms 100)] True (epoch_ms 0))) = None
   \<and> fst (snd (clear_expired_messages
            (example_env (epoch_ms 5000) (\<lambda>c. None) (\<lambda>d. None))
            (example_bot [example_row 1 (epoch_ms 100)] True (epoch_ms 0)))) = []
   \<and> messages_tab (committed (db (message_registry (snd (snd (clear_expired_messages
            (example_env (epoch_ms 5000) (\<lambda>c. None) (\<lambda>d. None))
            (example_bot [example_row 1 (epoch_ms 100)] True (epoch_ms 0)))))))) = []
   \<and> fst (snd (clear_expired_messages
            (example_env (epoch_ms 5000) (\<lambda>c. None) (\<lambda>d. None))
            (example_bot [example_row 1 (epoch_ms 100)] False (epoch_ms 0))))
       = [Delete (example_message 1 (epoch_ms 100))]"
  by (simp add: example_defs model_defs Let_def)

section \<open>Commit and rollback of a drain pass\<close>

text \<open>
  The registry changes during the loop over the groups only when a channel is
  deregistered, and the loop collects at most one deletion call per popped message.
\<close>

lemma process_group_keeps_registry:
  assumes "get_channel env (fst grp) \<or> fetch_channel env (fst grp) \<noteq> Some NotFound"
    and "process_group env protect grp st = Inr st'"
  shows "registry st' = registry st"
  using assms
  by (auto simp: process_group_def Let_def fetch_or_deregister_channel_def
      split: prod.splits sum.splits list.splits if_splits option.splits)

lemma group_loop_keeps_registry:
  assumes "list_all (\<lambda>grp. get_channel env (fst grp) \<or> fetch_channel env (fst grp) \<noteq> Some NotFound) grps"
  shows "registry (snd (group_loop env protect grps st)) = registry st"
  using assms
proof (induction grps arbitrary: st)
  case Nil
  then show ?case by simp
next
  case (Cons grp grps)
  show ?case
  proof (cases "process_group env protect grp st")
    case (Inl e)
    then show ?thesis by simp
  next
    case (Inr st')
    with Cons.prems have "registry st' = registry st"
      using process_group_keeps_registry[of env grp protect st st'] by simp
    with Inr Cons show ?thesis by simp
  qed
qed

lemma length_chunk_loop: "length (chunk_loop start xs) \<le> length xs - start"
proof (induction start xs rule: chunk_loop.induct)
  case (1 start xs)
  show ?case
  proof (cases "start < length xs")
    case True
    with 1 show ?thesis by (subst chunk_loop.simps) simp
  next
    case False
    then show ?thesis by (subst chunk_loop.simps) simp
  qed
qed

lemma length_protect_pinned:
  "protect_pinned env c grp = Inr message_group \<Longrightarrow> length message_group \<le> length grp"
  by (auto simp: protect_pinned_def split: if_splits sum.splits list.splits)

lemma length_age_partition:
  "length (filter (\<lambda>m. created_at m > limit) ms) + length (filter (\<lambda>m. created_at m \<le> limit) ms)
     = length ms"
proof -
  have "(\<lambda>m. created_at m \<le> limit) = (\<lambda>m. \<not> created_at m > limit)"
    by (simp add: not_less)
  then show ?thesis
    by (simp add: sum_length_filter_compl)
qed

lemma process_group_length:
  assumes "process_group env protect (c, unfiltered) st = Inr st'"
  shows "length (deletions st') \<le> length (deletions st) + length unfiltered"
proof -
  obtain message_group where mg:
    "(if protect then protect_pinned env c unfiltered else Inr unfiltered) = Inr message_group"
    using assms by (auto simp: process_group_def split: sum.splits)
  then have le: "length message_group \<le> length unfiltered"
    by (auto dest: length_protect_pinned split: if_splits)
  show ?thesis
  proof (cases "protect \<and> message_group = []")
    case True
    with assms mg show ?thesis by (auto simp: process_group_def)
  next
    case False
    then have pp: "protect \<longrightarrow> message_group \<noteq> []" by blast
    let ?bulk = "filter (\<lambda>m. created_at m > utcnow_group env c - bulk_age_limit) message_group"
    let ?old = "filter (\<lambda>m. created_at m \<le> utcnow_group env c - bulk_age_limit) message_group"
    have part: "length ?bulk + length ?old = length message_group"
      by (rule length_age_partition)
    have chunks: "length (chunk_loop 0 ?bulk) \<le> length ?bulk"
      using length_chunk_loop[of 0 ?bulk] by simp
    note body = process_group_body[OF mg pp, of st]
    show ?thesis
    proof (cases ?bulk)
      case Nil
      with assms body part le show ?thesis by auto
    next
      case (Cons m ms)
      note outer = Cons
      show ?thesis
      proof (cases ms)
        case Nil
        with outer assms body part le show ?thesis by auto
      next
        case (Cons m' ms')
        with outer have two: "?bulk = m # m' # ms'" by simp
        from assms have "length (deletions st') \<le> length (deletions st)
            + length (chunk_loop 0 ?bulk) + length ?old"
          unfolding body two list.case
          by (auto simp: two[symmetric] split: if_splits prod.splits sum.splits)
        with chunks part le show ?thesis by linarith
      qed
    qed
  qed
qed

lemma concat_groupby: "concat (map snd (groupby key xs)) = xs"
  by (induction key xs rule: groupby.induct) simp_all

lemma group_loop_length:
  "length (deletions (snd (group_loop env protect grps st)))
     \<le> length (deletions st) + length (concat (map snd grps))"
proof (induction grps arbitrary: st)
  case Nil
  show ?case by simp
next
  case (Cons grp grps)
  obtain c unfiltered where grp: "grp = (c, unfiltered)" by (cases grp)
  show ?case
  proof (cases "process_group env protect grp st")
    case (Inl e)
    then show ?thesis by simp
  next
    case (Inr st')
    then have "length (deletions st') \<le> length (deletions st) + length unfiltered"
      using process_group_length[of env protect c unfiltered st st'] grp by simp
    moreover have "length (deletions (snd (group_loop env protect grps st')))
        \<le> length (deletions st') + length (concat (map snd grps))"
      by (rule Cons.IH)
    ultimately show ?thesis using Inr grp by simp
  qed
qed

lemma check_results_None_iff:
  "length rs \<le> length ms \<Longrightarrow>
     check_results (zip ms rs) = None
       \<longleftrightarrow> list_all (\<lambda>r. r = None \<or> r = Some Forbidden \<or> r = Some NotFound) rs"
proof (induction rs arbitrary: ms)
  case Nil
  show ?case by simp
next
  case (Cons r rs)
  then obtain m ms' where ms: "ms = m # ms'" by (cases ms) simp_all
  with Cons.prems have "length rs \<le> length ms'" by simp
  from Cons.IH[OF this] show ?case
    unfolding ms by (cases r) auto
qed

text \<open>
  A pass during which no channel is found missing, so that nothing is deregistered,
  from a connection with no open transaction. A pass that raises leaves the registry
  exactly as it was, queue included; a pass that ends normally commits the DELETE of
  the pop. When the loop over the groups has not raised, the pass ends normally if and
  only if every deletion call succeeded or failed with Forbidden or NotFound: there
  are at most as many calls as popped messages, so \<^verbatim>\<open>zip\<close> drops no result.
\<close>

lemma drain_pass_without_deregistration:
  assumes "\<forall>c. get_channel env c \<or> fetch_channel env c \<noteq> Some NotFound"
    and "working (db (message_registry self)) = committed (db (message_registry self))"
  shows "(fst (clear_expired_messages env self) \<noteq> None \<longrightarrow>
            message_registry (snd (snd (clear_expired_messages env self))) = message_registry self)
     \<and> (fst (clear_expired_messages env self) = None \<longrightarrow>
            db (message_registry (snd (snd (clear_expired_messages env self))))
              = commit (execute (sql_delete_expired (time_snowflake (utcnow_pop env)))
                         (db (message_registry self))))
     \<and> (fst (group_loop env (protect_pins self)
                (groupby fst (fst (pop_expired_messages (utcnow_pop env) (message_registry self))))
                \<lparr>deletions = [],
                 registry = snd (pop_expired_messages (utcnow_pop env) (message_registry self))\<rparr>)
           = None \<longrightarrow>
            (fst (clear_expired_messages env self) = None
               \<longleftrightarrow> list_all (\<lambda>r. r = None \<or> r = Some Forbidden \<or> r = Some NotFound)
                     (map (delete_result env) (fst (snd (clear_expired_messages env self))))))"
proof -
  let ?r = "message_registry self"
  let ?messages = "fst (pop_expired_messages (utcnow_pop env) ?r)"
  let ?r1 = "snd (pop_expired_messages (utcnow_pop env) ?r)"
  let ?grps = "groupby fst ?messages"
  let ?st0 = "\<lparr>deletions = [], registry = ?r1\<rparr>"
  let ?loop = "group_loop env (protect_pins self) ?grps ?st0"
  have all: "list_all (\<lambda>grp. get_channel env (fst grp) \<or> fetch_channel env (fst grp) \<noteq> Some NotFound) ?grps"
    using assms(1) by (simp add: list_all_iff)
  have reg: "registry (snd ?loop) = ?r1"
    using group_loop_keeps_registry[OF all, of "protect_pins self" ?st0] by simp
  have len: "length (deletions (snd ?loop)) \<le> length ?messages"
    using group_loop_length[of env "protect_pins self" ?grps ?st0]
    by (simp add: concat_groupby)
  have r1: "?r1 = ?r\<lparr>db := execute (sql_delete_expired (time_snowflake (utcnow_pop env))) (db ?r)\<rparr>"
    by (simp add: pop_expired_messages_def Let_def)
  have undone: "aexit (Some e) ?r1 = ?r" for e
    using assms(2) by (simp add: r1 aexit_def rollback_def execute_def)
  have fin: "db (aexit None ?r1)
      = commit (execute (sql_delete_expired (time_snowflake (utcnow_pop env))) (db ?r))"
    by (simp add: r1 aexit_def)
  have clear: "clear_expired_messages env self =
     (case fst ?loop of
        Some e \<Rightarrow> (Some e, [], self\<lparr>work_pending := False, message_registry := aexit (Some e) ?r1\<rparr>)
      | None \<Rightarrow>
          (check_results (zip ?messages (map (delete_result env) (deletions (snd ?loop)))),
           deletions (snd ?loop),
           self\<lparr>work_pending := False,
                message_registry :=
                  aexit (check_results (zip ?messages (map (delete_result env) (deletions (snd ?loop)))))
                    ?r1\<rparr>))"
    using reg
    by (simp add: clear_expired_messages_def Let_def split_beta split: option.splits)
  have verdict: "check_results (zip ?messages (map (delete_result env) (deletions (snd ?loop)))) = None
       \<longleftrightarrow> list_all (\<lambda>r. r = None \<or> r = Some Forbidden \<or> r = Some NotFound)
             (map (delete_result env) (deletions (snd ?loop)))"
    using len by (intro check_results_None_iff) simp
  show ?thesis
    unfolding clear using undone fin verdict
    by (auto split: option.splits)
qed

text \<open>
  C1 at a failing input. The queue holds two expired messages of channel 1 and one of
  channel 2. Channel 1 is not in the cache and \<^verbatim>\<open>fetch_channel\<close> answers NotFound, so
  \<^verbatim>\<open>fetch_or_deregister_channel\<close> deregisters it, and \<^verbatim>\<open>deregister_channel\<close> commits on
  the connection whose transaction holds the DELETE of the pop. The single delete of the
  message of channel 2 then fails with an HTTP error that is neither Forbidden nor
  NotFound. The pass raises that error and rolls back, but the popped entries are
  already gone from the committed queue: a second pop at the same time returns
  nothing, although the message of channel 2 was not deleted.
\<close>

theorem fatal_failure_after_deregistration_is_committed:
  "fst (pop_expired_messages (epoch_ms 5000) (example_registry three_rows))
     = [example_message 1 (epoch_ms 100), example_message 1 (epoch_ms 200),
        example_message 2 (epoch_ms 300)]
   \<and> clear_expired_messages
       (example_env (epoch_ms 5000) (\<lambda>c. if c = 1 then Some NotFound else None)
          (\<lambda>d. if d = Delete (example_message 2 (epoch_ms 300))
                then Some HTTPException else None))
       (example_bot three_rows False (epoch_ms 0))
     = (Some HTTPException, [Delete (example_message 2 (epoch_ms 300))],
        \<lparr>message_registry =
           \<lparr>channels = [2 \<mapsto> example_config 2],
            db = \<lparr>committed = \<lparr>channels_tab = [2 \<mapsto> (1000000, 5)], messages_tab = []\<rparr>,
                  working = \<lparr>channels_tab = [2 \<mapsto> (1000000, 5)], messages_tab = []\<rparr>\<rparr>\<rparr>,
         work_pending = False, wake_time = epoch_ms 0, active_sleep = None,
         protect_pins = False\<rparr>)
   \<and> fst (pop_expired_messages (epoch_ms 5000)
            \<lparr>channels = [2 \<mapsto> example_config 2],
             db = \<lparr>committed = \<lparr>channels_tab = [2 \<mapsto> (1000000, 5)], messages_tab = []\<rparr>,
                   working = \<lparr>channels_tab = [2 \<mapsto> (1000000, 5)], messages_tab = []\<rparr>\<rparr>\<rparr>) = []"
  by (simp add: example_defs model_defs Let_def)

section \<open>The wake scheduler\<close>

lemma wake_time_monotone:
  "wake_time (snd (snd (sleep_until now evs self))) \<le> wake_time self
   \<and> wake_time (snd (snd (await_sleep su now evs self))) \<le> wake_time self"
proof (induction evs arbitrary: now self su)
  case Nil
  show ?case by (simp add: sleep_until.simps)
next
  case (Cons ev evs)
  have IH1: "wake_time (snd (snd (sleep_until now evs self))) \<le> wake_time self" for now self
    using Cons.IH by blast
  have IH2: "wake_time (snd (snd (await_sleep su now evs self))) \<le> wake_time self"
    for su now self
    using Cons.IH by blast
  have aw: "wake_time (snd (snd (await_sleep su now (ev # evs) self))) \<le> wake_time self"
    for su now self
  proof (cases ev)
    case (Registered t d)
    have a: "wake_time (snd (snd (sleep_until (max now t) evs
               (self\<lparr>work_pending := True, wake_time := d, active_sleep := None\<rparr>)))) \<le> d"
      using IH1[of "max now t" "self\<lparr>work_pending := True, wake_time := d, active_sleep := None\<rparr>"]
      by simp
    have b: "wake_time (snd (snd (await_sleep su (max now t) evs
               (self\<lparr>work_pending := True, wake_time := d\<rparr>)))) \<le> d"
      using IH2[of su "max now t" "self\<lparr>work_pending := True, wake_time := d\<rparr>"]
      by simp
    have c: "wake_time (snd (snd (await_sleep su (max now t) evs
               (self\<lparr>work_pending := True\<rparr>)))) \<le> wake_time self"
      using IH2[of su "max now t" "self\<lparr>work_pending := True\<rparr>"]
      by simp
    show ?thesis
      using a b c by (auto simp: Registered shorten_sleep_def)
  next
    case (Cancel t)
    have a: "wake_time (snd (snd (sleep_until (max now t) evs (self\<lparr>active_sleep := None\<rparr>))))
               \<le> wake_time self"
      using IH1[of "max now t" "self\<lparr>active_sleep := None\<rparr>"] by simp
    show ?thesis
      using a by (simp add: Cancel)
  qed
  have "wake_time (snd (snd (sleep_until now (ev # evs) self))) \<le> wake_time self"
    using aw[of "wake_time self" now "self\<lparr>active_sleep := Some (wake_time self - now)\<rparr>"]
    by (simp add: sleep_until.simps)
  with aw show ?case by blast
qed

text \<open>
  With registrations as the only interrupts the method returns: not before the moment
  it began, and not after the later of that moment and the wake time it began with.
\<close>

lemma sleep_returns:
  "list_all is_registration evs \<Longrightarrow>
     (fst (sleep_until now evs self) = Returned
        \<and> now \<le> fst (snd (sleep_until now evs self))
        \<and> fst (snd (sleep_until now evs self)) \<le> max now (wake_time self))
   \<and> (wake_time self \<le> su \<longrightarrow> now \<le> su \<longrightarrow>
        fst (await_sleep su now evs self) = Returned
        \<and> now \<le> fst (snd (await_sleep su now evs self))
        \<and> fst (snd (await_sleep su now evs self)) \<le> su)"
proof (induction evs arbitrary: now self su)
  case Nil
  show ?case by (simp add: sleep_until.simps)
next
  case (Cons ev evs)
  from Cons.prems have regs: "list_all is_registration evs" and ev: "is_registration ev"
    by simp_all
  have IH1: "fst (sleep_until now evs self) = Returned
        \<and> now \<le> fst (snd (sleep_until now evs self))
        \<and> fst (snd (sleep_until now evs self)) \<le> max now (wake_time self)" for now self
    using Cons.IH[OF regs] by blast
  have IH2: "wake_time self \<le> su \<Longrightarrow> now \<le> su \<Longrightarrow>
        fst (await_sleep su now evs self) = Returned
        \<and> now \<le> fst (snd (await_sleep su now evs self))
        \<and> fst (snd (await_sleep su now evs self)) \<le> su" for su now self
    using Cons.IH[OF regs] by blast
  from ev obtain t d where Registered: "ev = Registered t d"
    by (cases ev) simp_all
  have aw: "fst (await_sleep su now (ev # evs) self) = Returned
        \<and> now \<le> fst (snd (await_sleep su now (ev # evs) self))
        \<and> fst (snd (await_sleep su now (ev # evs) self)) \<le> su"
    if le: "wake_time self \<le> su" "now \<le> su" for su now self
  proof (cases "su \<le> t")
    case True
    then show ?thesis using le by (simp add: Registered)
  next
    case False
    then have t: "max now t \<le> su" using le by simp
    show ?thesis
    proof (cases "d < wake_time self")
      case shorter: True
      show ?thesis
      proof (cases "active_sleep self")
        case None
        have "d \<le> su" using shorter le by simp
        from IH2[of "self\<lparr>work_pending := True, wake_time := d\<rparr>" su "max now t"] this t
        show ?thesis
          using False shorter None by (simp add: Registered shorten_sleep_def)
      next
        case (Some secs)
        have neq: "su \<noteq> d" using shorter le by simp
        from IH1[of "max now t" "self\<lparr>work_pending := True, wake_time := d, active_sleep := None\<rparr>"]
        show ?thesis
          using False shorter Some neq t le by (simp add: Registered shorten_sleep_def) linarith
      qed
    next
      case longer: False
      from IH2[of "self\<lparr>work_pending := True\<rparr>" su "max now t"] le t
      show ?thesis
        using False longer by (simp add: Registered shorten_sleep_def)
    qed
  qed
  have "fst (sleep_until now (ev # evs) self) = Returned
        \<and> now \<le> fst (snd (sleep_until now (ev # evs) self))
        \<and> fst (snd (sleep_until now (ev # evs) self)) \<le> max now (wake_time self)"
  proof (cases "wake_time self - now > 0")
    case True
    then show ?thesis
      using aw[of "self\<lparr>active_sleep := Some (wake_time self - now)\<rparr>" "wake_time self" now]
      by (simp add: sleep_until.simps)
  next
    case False
    then show ?thesis by (simp add: sleep_until.simps)
  qed
  with aw show ?case by blast
qed

text \<open>
  The bot sleeps since the moment 0 until its wake time 1000. At the moment 500 a
  message is registered whose deadline 100 is earlier than the wake time and already
  past. The wake time becomes 100, the sleep is cancelled, the loop finds
  \<^verbatim>\<open>seconds <= 0\<close> and returns: at 500, which is after the deadline 100.
\<close>

theorem wait_resolves_after_past_deadline:
  "wake_time (example_bot [] False 1000) = 1000
   \<and> (100::int) < 1000
   \<and> sleep_until 0 [Registered 500 100] (example_bot [] False 1000)
       = (Returned, 500, (example_bot [] False 1000)
            \<lparr>work_pending := True, wake_time := 100, active_sleep := None\<rparr>)
   \<and> \<not> (500::int) \<le> 100"
  by (simp add: example_bot_def shorten_sleep_def sleep_until.simps)

text \<open>
  C6, as the code has it. The bot awaits, since the moment \<open>now\<close>, a sleep until its wake
  time t1. A deadline t0 earlier than t1 given to \<^verbatim>\<open>_shorten_sleep\<close> sets the wake time
  to t0 and cancels the sleep. When that happens at a moment tc before t1 through a
  registration, the loop finds the wake time changed and starts over at that moment
  with the wake time t0; a cancellation that leaves the wake time unchanged is raised
  again. With registrations as the only later interrupts the wait returns, not before
  the registration and not after the later of t0 and the registration, so before t1;
  with no later interrupt it returns exactly at the later of t0 and the registration,
  which is t0 whenever the message is registered before its deadline. The undisturbed
  sleep returns at t1.
\<close>

theorem shorten_sleep_cancels_and_restarts:
  assumes "wake_time self = t1" and "now < t1" and "active_sleep self = Some secs"
    and "tc < t1" and "t0 < t1" and "list_all is_registration evs"
  shows "shorten_sleep t0 self = (self\<lparr>wake_time := t0\<rparr>, True)
     \<and> await_sleep t1 now (Registered tc t0 # evs) self
         = sleep_until (max now tc) evs
             (self\<lparr>work_pending := True, wake_time := t0, active_sleep := None\<rparr>)
     \<and> await_sleep t1 now (Cancel tc # evs) self
         = (Raised, max now tc, self\<lparr>active_sleep := None\<rparr>)
     \<and> fst (await_sleep t1 now (Registered tc t0 # evs) self) = Returned
     \<and> max now tc \<le> fst (snd (await_sleep t1 now (Registered tc t0 # evs) self))
     \<and> fst (snd (await_sleep t1 now (Registered tc t0 # evs) self)) \<le> max (max now tc) t0
     \<and> fst (snd (await_sleep t1 now (Registered tc t0 # evs) self)) < t1
     \<and> fst (snd (await_sleep t1 now [Registered tc t0] self)) = max (max now tc) t0
     \<and> await_sleep t1 now [] self = (Returned, t1, self\<lparr>active_sleep := None\<rparr>)"
proof -
  let ?self' = "self\<lparr>work_pending := True, wake_time := t0, active_sleep := None\<rparr>"
  have short: "shorten_sleep t0 self = (self\<lparr>wake_time := t0\<rparr>, True)"
    using assms(1,3,5) by (simp add: shorten_sleep_def)
  have restart: "await_sleep t1 now (Registered tc t0 # evs) self
         = sleep_until (max now tc) evs ?self'"
    using assms(1,3,4,5) by (simp add: shorten_sleep_def)
  have cancel: "await_sleep t1 now (Cancel tc # evs) self
         = (Raised, max now tc, self\<lparr>active_sleep := None\<rparr>)"
    using assms(1,4) by simp
  have ret: "fst (sleep_until (max now tc) evs ?self') = Returned
        \<and> max now tc \<le> fst (snd (sleep_until (max now tc) evs ?self'))
        \<and> fst (snd (sleep_until (max now tc) evs ?self')) \<le> max (max now tc) t0"
    using sleep_returns[OF assms(6), of "max now tc" ?self'] by simp
  have before: "fst (snd (sleep_until (max now tc) evs ?self')) < t1"
    using ret assms(2,4,5) by linarith
  have exact: "fst (snd (await_sleep t1 now [Registered tc t0] self)) = max (max now tc) t0"
    using assms(1,3,4,5) by (simp add: shorten_sleep_def sleep_until.simps) linarith
  have plain: "await_sleep t1 now [] self = (Returned, t1, self\<lparr>active_sleep := None\<rparr>)"
    by simp
  show ?thesis
    unfolding restart using short ret before exact cancel plain
    by (simp only: restart simp_thms)
qed

text \<open>
  The theorem at a sleep from 0 until 1000 and a message with the deadline 100
  registered at 50: the wait returns at 100.
\<close>

theorem shorten_sleep_cancels_and_restarts_witness:
  "shorten_sleep 100 ((example_bot [] False 1000)\<lparr>active_sleep := Some 1000\<rparr>)
     = ((example_bot [] False 1000)\<lparr>active_sleep := Some 1000, wake_time := 100\<rparr>, True)
   \<and> fst (await_sleep 1000 0 [Registered 50 100]
            ((example_bot [] False 1000)\<lparr>active_sleep := Some 1000\<rparr>)) = Returned
   \<and> fst (snd (await_sleep 1000 0 [Registered 50 100]
            ((example_bot [] False 1000)\<lparr>active_sleep := Some 1000\<rparr>))) = 100
   \<and> fst (await_sleep 1000 0 [Cancel 50]
            ((example_bot [] False 1000)\<lparr>active_sleep := Some 1000\<rparr>)) = Raised"
proof -
  let ?self = "(example_bot [] False 1000)\<lparr>active_sleep := Some 1000\<rparr>"
  have h1: "wake_time ?self = 1000" by (simp add: example_bot_def)
  have h2: "(0::int) < 1000" by simp
  have h3: "active_sleep ?self = Some 1000" by simp
  have h4: "(50::int) < 1000" by simp
  have h5: "(100::int) < 1000" by simp
  have h6: "list_all is_registration []" by simp
  show ?thesis
    using shorten_sleep_cancels_and_restarts [OF h1 h2 h3 h4 h5 h6]
    by (simp add: example_bot_def shorten_sleep_def sleep_until.simps)
qed

text \<open>
  After a drain pass at 1100 ms after the epoch the wake time is still the deadline of
  that pass, and the queue holds a message due at 1200. \<^verbatim>\<open>_wait_until_needed\<close>, which
  runs before the next pass, assigns the later deadline: the wake time has increased
  between the two passes.
\<close>

theorem wait_until_needed_raises_wake_time:
  "wake_time (example_bot [example_row 1 (epoch_ms 200)] False (epoch_ms 1100))
     = epoch_ms 1100
   \<and> wait_until_needed (epoch_ms 1100) []
       (example_bot [example_row 1 (epoch_ms 200)] False (epoch_ms 1100))
     = (Returned, epoch_ms 1200,
        (example_bot [example_row 1 (epoch_ms 200)] False (epoch_ms 1100))
          \<lparr>wake_time := epoch_ms 1200\<rparr>)
   \<and> epoch_ms 1100 < epoch_ms 1200"
  by (simp add: example_defs model_defs sleep_until.simps)

text \<open>
  C10, as the code has it. \<^verbatim>\<open>_shorten_sleep\<close> with a deadline at or after the wake time
  changes nothing and cancels nothing, and no call of it raises the wake time. The
  wake time at the end of \<^verbatim>\<open>_sleep_until\<close> is at most the one at its beginning,
  whatever is registered or cancelled meanwhile; so once \<^verbatim>\<open>_wait_until_needed\<close> has set
  the wake time to the next pending deadline, the wake time only decreases until the
  next drain pass.
\<close>

theorem shorten_sleep_never_delays:
  "(wake_time self \<le> dt \<longrightarrow> shorten_sleep dt self = (self, False))
   \<and> wake_time (fst (shorten_sleep dt self)) \<le> wake_time self
   \<and> wake_time (snd (snd (sleep_until now evs self))) \<le> wake_time self
   \<and> (get_next_expiring_message (message_registry self) = Some (m, delete_at) \<longrightarrow>
        wake_time (snd (snd (wait_until_needed now evs self))) \<le> delete_at)"
proof -
  have "wake_time (snd (snd (sleep_until now evs (self\<lparr>wake_time := delete_at\<rparr>)))) \<le> delete_at"
    using wake_time_monotone[of now evs "self\<lparr>wake_time := delete_at\<rparr>"] by simp
  then show ?thesis
    using wake_time_monotone[of now evs self]
    by (simp add: shorten_sleep_def wait_until_needed_def)
qed

text \<open>
  The theorem at a bot with the wake time 1200 ms after the epoch, a queue whose next
  deadline is that moment, a call of \<^verbatim>\<open>_shorten_sleep\<close> with a later deadline, and a
  registration with an earlier one during the wait.
\<close>

theorem shorten_sleep_never_delays_witness:
  "shorten_sleep (epoch_ms 2000)
       (example_bot [example_row 1 (epoch_ms 200)] False (epoch_ms 1200))
     = (example_bot [example_row 1 (epoch_ms 200)] False (epoch_ms 1200), False)
   \<and> wake_time (snd (snd (wait_until_needed (epoch_ms 1100)
        [Registered (epoch_ms 1150) (epoch_ms 1180)]
        (example_bot [example_row 1 (epoch_ms 200)] False (epoch_ms 1200)))))
       \<le> epoch_ms 1200"
proof -
  let ?self = "example_bot [example_row 1 (epoch_ms 200)] False (epoch_ms 1200)"
  have h1: "wake_time ?self \<le> epoch_ms 2000"
    by (simp add: example_bot_def epoch_ms_def)
  have h2: "get_next_expiring_message (message_registry ?self)
      = Some (example_message 1 (epoch_ms 200), epoch_ms 1200)"
    by (simp add: example_defs model_defs)
  show ?thesis
    using shorten_sleep_never_delays [of ?self "epoch_ms 2000" "epoch_ms 1100"
        "[Registered (epoch_ms 1150) (epoch_ms 1180)]"
        "example_message 1 (epoch_ms 200)" "epoch_ms 1200"] h1 h2
    by simp
qed

end
